theory Spec2Isabelle
  imports Main
begin

section \<open>JavaScript values\<close>

text \<open>
  The scripts under \<^verbatim>\<open>crates/iris-wasm/scripts\<close> work on values that come out of
  \<^verbatim>\<open>JSON.parse\<close> or are handed to a type guard as \<^verbatim>\<open>unknown\<close>. A value here is
  data: \<^verbatim>\<open>undefined\<close>, \<^verbatim>\<open>null\<close>, a boolean, a number, a string, an array or a plain
  object. An array may be sparse: each of its slots holds an element or is a hole
  (\<open>None\<close>), as in \<^verbatim>\<open>new Array(3)\<close> or \<^verbatim>\<open>[1, , 2]\<close>; \<^verbatim>\<open>JSON.parse\<close> never makes a
  hole. An object is an association list, in property order. Numbers only ever meet
  a truthiness test in the scripts, so a number is kept as an integer: what matters
  is whether it is zero. Proxies and arrays whose \<^verbatim>\<open>length\<close> or \<^verbatim>\<open>every\<close> has been
  redefined are not data and are outside the model.
\<close>

datatype jsval =
    JUndefined
  | JNull
  | JBool bool
  | JNum int
  | JStr string
  | JArr "jsval option list"
  | JObj "(string \<times> jsval) list"

text \<open>\<^verbatim>\<open>Array.isArray(obj)\<close>.\<close>

fun isArray :: "jsval \<Rightarrow> bool" where
  "isArray (JArr xs) = True"
| "isArray v = False"

text \<open>
  \<^verbatim>\<open>obj[i]\<close> on an array: a hole reads \<^verbatim>\<open>undefined\<close>, and so does an index past the
  end; neither raises.
\<close>

fun js_read :: "jsval option \<Rightarrow> jsval" where
  "js_read None = JUndefined"
| "js_read (Some v) = v"

definition js_index :: "jsval option list \<Rightarrow> nat \<Rightarrow> jsval" where
  "js_index xs i = (if i < length xs then js_read (xs ! i) else JUndefined)"

text \<open>
  \<^verbatim>\<open>xs.every(p)\<close>: the callback is called on the elements that are present, in
  order; a hole is skipped, so it never makes the answer false.
\<close>

fun js_every :: "(jsval \<Rightarrow> bool) \<Rightarrow> jsval option list \<Rightarrow> bool" where
  "js_every p [] = True"
| "js_every p (None # xs) = js_every p xs"
| "js_every p (Some v # xs) = (p v \<and> js_every p xs)"

text \<open>
  \<^verbatim>\<open>!v\<close>: the falsy values are \<^verbatim>\<open>undefined\<close>, \<^verbatim>\<open>null\<close>, \<^verbatim>\<open>false\<close>, zero and the
  empty string; every array and object is truthy.
\<close>

fun falsy :: "jsval \<Rightarrow> bool" where
  "falsy JUndefined = True"
| "falsy JNull = True"
| "falsy (JBool b) = (\<not> b)"
| "falsy (JNum n) = (n = 0)"
| "falsy (JStr s) = (s = [])"
| "falsy (JArr xs) = False"
| "falsy (JObj fs) = False"

text \<open>
  Reading a property of an object gives \<^verbatim>\<open>undefined\<close> when the key is missing.
  Assigning to a property replaces the value where the key stands, or adds the key
  at the end.
\<close>

fun get_prop :: "(string \<times> jsval) list \<Rightarrow> string \<Rightarrow> jsval" where
  "get_prop [] k = JUndefined"
| "get_prop ((k', v) # fs) k = (if k' = k then v else get_prop fs k)"

fun set_prop :: "(string \<times> jsval) list \<Rightarrow> string \<Rightarrow> jsval \<Rightarrow> (string \<times> jsval) list" where
  "set_prop [] k v = [(k, v)]"
| "set_prop ((k', v') # fs) k v =
     (if k' = k then (k, v) # fs else (k', v') # set_prop fs k v)"

section \<open>JavaScript strings\<close>

text \<open>
  A string is a list of characters, one for each code unit; the characters of the
  model are the code units below 256, which covers the generated files (they are
  ASCII). \<open>startsWith\<close> is \<^verbatim>\<open>String.prototype.startsWith\<close>,
  \<open>str_includes\<close> is \<^verbatim>\<open>String.prototype.includes\<close>, and \<open>replace_first\<close> is
  \<^verbatim>\<open>String.prototype.replace\<close> with a string pattern, which rewrites the leftmost
  occurrence only (the replacement texts of the scripts hold no \<^verbatim>\<open>$\<close>).
  \<open>trim\<close> strips white space and line terminators from both ends; among the
  characters below 256 these are tab, line feed, vertical tab, form feed, carriage
  return, space and the no-break space.
\<close>

fun startsWith :: "string \<Rightarrow> string \<Rightarrow> bool" where
  "startsWith s [] = True"
| "startsWith [] (p # ps) = False"
| "startsWith (c # cs) (p # ps) = (c = p \<and> startsWith cs ps)"

fun str_includes :: "string \<Rightarrow> string \<Rightarrow> bool" where
  "str_includes [] pat = startsWith [] pat"
| "str_includes (c # cs) pat = (startsWith (c # cs) pat \<or> str_includes cs pat)"

fun replace_first :: "string \<Rightarrow> string \<Rightarrow> string \<Rightarrow> string" where
  "replace_first [] pat rep = (if pat = [] then rep else [])"
| "replace_first (c # cs) pat rep =
     (if startsWith (c # cs) pat then rep @ drop (length pat) (c # cs)
      else c # replace_first cs pat rep)"

definition newline :: char where
  "newline = CHR 0x0A"

definition is_space :: "char \<Rightarrow> bool" where
  "is_space c =
     (c \<in> set [CHR 0x09, CHR 0x0A, CHR 0x0B, CHR 0x0C, CHR 0x0D, CHR 0x20, CHR 0xA0])"

definition trim :: "string \<Rightarrow> string" where
  "trim s = rev (dropWhile is_space (rev (dropWhile is_space s)))"

text \<open>
  \<^verbatim>\<open>content.split('\n')\<close> always yields at least one line; \<^verbatim>\<open>lines.join('\n')\<close> puts a
  line feed between the lines and none after the last.
\<close>

fun split_lines :: "string \<Rightarrow> string list" where
  "split_lines [] = [[]]"
| "split_lines (c # cs) =
     (if c = newline then [] # split_lines cs
      else (case split_lines cs of l # ls \<Rightarrow> (c # l) # ls | [] \<Rightarrow> [[c]]))"

fun join_lines :: "string list \<Rightarrow> string" where
  "join_lines [] = []"
| "join_lines [l] = l"
| "join_lines (l # l' # ls) = l @ newline # join_lines (l' # ls)"

section \<open>The generic guards appended by filter-guards.js\<close>

text \<open>
  The five guards of the template literal \<^verbatim>\<open>genericGuards\<close>
  (filter-guards.js, lines 109 to 128). A guard callback (\<^verbatim>\<open>isE\<close>, \<^verbatim>\<open>isT\<close>, \<^verbatim>\<open>isK\<close>,
  \<^verbatim>\<open>isV\<close>) is a total predicate on values, as the generated guards are. \<^verbatim>\<open>&&\<close> is
  conjunction on such predicates; \<^verbatim>\<open>obj.every(p)\<close> on an array is \<open>js_every p\<close>.
\<close>

definition isZBase :: "jsval \<Rightarrow> (jsval \<Rightarrow> bool) \<Rightarrow> bool" where
  "isZBase obj isE = (case obj of JArr xs \<Rightarrow> js_every isE xs | _ \<Rightarrow> False)"

definition isZSetEntry :: "jsval \<Rightarrow> (jsval \<Rightarrow> bool) \<Rightarrow> bool" where
  "isZSetEntry obj isT = isT obj"

definition isZSet :: "jsval \<Rightarrow> (jsval \<Rightarrow> bool) \<Rightarrow> bool" where
  "isZSet obj isT = isZBase obj (\<lambda>e. isZSetEntry e isT)"

definition isZMapEntry :: "jsval \<Rightarrow> (jsval \<Rightarrow> bool) \<Rightarrow> (jsval \<Rightarrow> bool) \<Rightarrow> bool" where
  "isZMapEntry obj isK isV =
     (case obj of
        JArr xs \<Rightarrow> length xs = 2 \<and> isK (js_index xs 0) \<and> isV (js_index xs 1)
      | _ \<Rightarrow> False)"

definition isZMap :: "jsval \<Rightarrow> (jsval \<Rightarrow> bool) \<Rightarrow> (jsval \<Rightarrow> bool) \<Rightarrow> bool" where
  "isZMap obj isK isV =
     (if \<not> isArray obj then False
      else case obj of
             JArr xs \<Rightarrow> js_every (\<lambda>entry. isZMapEntry entry isK isV) xs
           | _ \<Rightarrow> False)"

section \<open>filter-guards.js\<close>

text \<open>
  The script reads the generated guard file, walks its lines once, and writes back
  the lines it keeps followed by the hand-written generic guards.
\<close>

definition excludes :: "string list" where
  "excludes = [''InitInput'', ''InitOutput'', ''SyncInitInput'', ''ExtendedKey'']"

definition guardsToRemove :: "string list" where
  "guardsToRemove =
     [''isReadableStreamType'', ''isInitInput'', ''isInitOutput'', ''isSyncInitInput'',
      ''isZBase'', ''isZSet'', ''isZSetEntry'', ''isZMap'', ''isZMapEntry'']"

text \<open>
  The template literal \<^verbatim>\<open>genericGuards\<close>: it opens with a line feed, holds lines 109
  to 128 of the script, and closes with a line feed.
\<close>

definition genericGuards :: string where
  "genericGuards = join_lines
     ['''',
      ''export function isZBase<E>(obj: unknown, isE: (e: unknown) => e is E): obj is ZBase<E> {'',
      ''    return Array.isArray(obj) && obj.every(isE);'',
      ''}'',
      '''',
      ''export function isZSetEntry<T>(obj: unknown, isT: (t: unknown) => t is T): obj is ZSetEntry<T> {'',
      ''    return isT(obj);'',
      ''}'',
      '''',
      ''export function isZSet<T>(obj: unknown, isT: (t: unknown) => t is T): obj is ZSet<T> {'',
      ''    return isZBase(obj, (e): e is ZSetEntry<T> => isZSetEntry(e, isT));'',
      ''}'',
      '''',
      ''export function isZMapEntry<K, V>(obj: unknown, isK: (k: unknown) => k is K, isV: (v: unknown) => v is V): obj is ZMapEntry<K, V> {'',
      ''    return Array.isArray(obj) && obj.length === 2 && isK(obj[0]) && isV(obj[1]);'',
      ''}'',
      '''',
      ''export function isZMap<K, V>(obj: unknown, isK: (k: unknown) => k is K, isV: (v: unknown) => v is V): obj is ZMap<K, V> {'',
      ''    if (!Array.isArray(obj)) return false;'',
      ''    return obj.every((entry) => isZMapEntry(entry, isK, isV));'',
      ''}'',
      '''']"

text \<open>The variables of the loop; \<open>newLines\<close> grows at its end.\<close>

record filter_state =
  newLines :: "string list"
  skip :: bool
  braceCount :: int
  insideGuard :: bool
  currentGuardName :: string

definition initial_state :: filter_state where
  "initial_state =
     \<lparr>newLines = [], skip = False, braceCount = 0, insideGuard = False,
      currentGuardName = []\<rparr>"

text \<open>
  \<^verbatim>\<open>for (const char of line)\<close>: an opening brace adds one to the count, a closing brace
  takes one away.
\<close>

fun count_braces :: "int \<Rightarrow> string \<Rightarrow> int" where
  "count_braces n [] = n"
| "count_braces n (c # cs) =
     count_braces (if c = CHR ''{'' then n + 1 else if c = CHR ''}'' then n - 1 else n) cs"

text \<open>
  The two rewrites at the head of the loop body (lines 31 to 36): a line whose
  trimmed text starts with \<^verbatim>\<open>import {\<close> has its leftmost \<^verbatim>\<open>import {\<close> replaced, and
  then every line has its leftmost \<^verbatim>\<open>from "./iris_wasm"\<close> replaced.
\<close>

definition fix_imports :: "string \<Rightarrow> string" where
  \<open>fix_imports line =
     replace_first
       (if startsWith (trim line) ''import {''
        then replace_first line ''import {'' ''import type {'' else line)
       ''from "./iris_wasm"'' ''from "./iris_wasm.js"''\<close>

text \<open>
  The two inner \<^verbatim>\<open>for ... of\<close> loops with their \<^verbatim>\<open>break\<close>: the first name of the list
  whose declaration prefix the trimmed line starts with.
\<close>

definition guard_start :: "string \<Rightarrow> string option" where
  "guard_start line =
     find (\<lambda>guardName. startsWith (trim line) (''export function '' @ guardName @ ''(''))
       guardsToRemove"

definition exclude_start :: "string \<Rightarrow> string option" where
  "exclude_start line =
     find (\<lambda>exclude. startsWith (trim line) (''export function is'' @ exclude @ ''(''))
       excludes"

text \<open>
  The rest of the loop body (lines 38 to 104), on the rewritten line. Every branch
  but the last ends in \<^verbatim>\<open>continue\<close> and drops the line.
\<close>

definition step :: "filter_state \<Rightarrow> string \<Rightarrow> filter_state" where
  "step st line =
     (case guard_start line of
        Some guardName \<Rightarrow>
          st\<lparr>insideGuard := True, currentGuardName := guardName,
             braceCount := count_braces 0 line\<rparr>
      | None \<Rightarrow>
          if insideGuard st then
            (let n = count_braces (braceCount st) line
             in if n = 0
                then st\<lparr>braceCount := n, insideGuard := False, currentGuardName := []\<rparr>
                else st\<lparr>braceCount := n\<rparr>)
          else
            (case exclude_start line of
               Some exclude \<Rightarrow> st\<lparr>skip := True, braceCount := count_braces 0 line\<rparr>
             | None \<Rightarrow>
                 if skip st then
                   (let n = count_braces (braceCount st) line
                    in if n = 0 then st\<lparr>braceCount := n, skip := False\<rparr>
                       else st\<lparr>braceCount := n\<rparr>)
                 else st\<lparr>newLines := newLines st @ [line]\<rparr>))"

definition process_line :: "filter_state \<Rightarrow> string \<Rightarrow> filter_state" where
  "process_line st line = step st (fix_imports line)"

text \<open>The loop over all lines, and the script from the text read to the text written.\<close>

definition filter_lines :: "string list \<Rightarrow> string list" where
  "filter_lines lines = newLines (foldl process_line initial_state lines)"

definition filter_guards :: "string \<Rightarrow> string" where
  "filter_guards content = join_lines (filter_lines (split_lines content) @ [genericGuards])"

subsection \<open>What the script is meant to remove\<close>

text \<open>
  A line is \<^emph>\<open>targeted\<close> when it declares one of the guards to remove: its trimmed
  text starts with \<^verbatim>\<open>export function <name>(\<close> for a name of \<open>guardsToRemove\<close>, or with
  \<^verbatim>\<open>export function is<name>(\<close> for a name of \<open>excludes\<close>.
\<close>

definition targeted :: "string \<Rightarrow> bool" where
  "targeted line = (guard_start line \<noteq> None \<or> exclude_start line \<noteq> None)"

definition decl_prefixes :: "string list" where
  "decl_prefixes =
     map (\<lambda>guardName. ''export function '' @ guardName @ ''('') guardsToRemove
     @ map (\<lambda>exclude. ''export function is'' @ exclude @ ''('') excludes"

definition brace_delta :: "string \<Rightarrow> int" where
  "brace_delta line = count_braces 0 line"

text \<open>
  The second rewrite alone (line 36), as every line gets it.
\<close>

definition fix_from :: "string \<Rightarrow> string" where
  \<open>fix_from line = replace_first line ''from "./iris_wasm"'' ''from "./iris_wasm.js"''\<close>

text \<open>
  Where a function ends, read off the text alone. The brace count of some lines is
  the number of their opening braces less the number of their closing braces.
  \<open>function_ends seen n ls\<close>: going through the lines \<open>ls\<close> with the count \<open>n\<close> so far,
  a brace having been met before or not (\<open>seen\<close>), the last line of \<open>ls\<close> is the first
  on which a brace has been met and the count is zero. Started as
  \<open>function_ends False 0\<close> on a declaration line and the lines after it, it says that
  these lines are exactly the function: its body is brace-balanced and ends with the
  last of them.
\<close>

definition has_brace :: "string \<Rightarrow> bool" where
  "has_brace line = (CHR ''{'' \<in> set line \<or> CHR ''}'' \<in> set line)"

fun function_ends :: "bool \<Rightarrow> int \<Rightarrow> string list \<Rightarrow> bool" where
  "function_ends seen n [] = False"
| "function_ends seen n (l # ls) =
     (if (seen \<or> has_brace l) \<and> n + brace_delta l = 0 then ls = []
      else function_ends (seen \<or> has_brace l) (n + brace_delta l) ls)"

text \<open>
  \<open>declared_functions ls ks\<close>: the lines \<open>ls\<close> are made of plain lines and of targeted
  functions, each a targeted declaration line followed by one or more lines that
  end its brace-balanced body, and \<open>ks\<close> are the plain lines in order. This is "each
  guard function has a brace-balanced body spanning more than the declaration line".
\<close>

inductive declared_functions :: "string list \<Rightarrow> string list \<Rightarrow> bool" where
  df_none: "declared_functions [] []"
| df_plain:
    "\<not> targeted l \<Longrightarrow> declared_functions ls ks \<Longrightarrow> declared_functions (l # ls) (l # ks)"
| df_function:
    "targeted d \<Longrightarrow> body \<noteq> [] \<Longrightarrow> function_ends False 0 (d # body) \<Longrightarrow>
     declared_functions rest ks \<Longrightarrow> declared_functions (d # body @ rest) ks"

text \<open>
  \<open>removable_functions ls ks\<close> asks two things more of every targeted function: its
  first brace stands on its declaration line or on the line right after it, and no
  line after its declaration line is itself a targeted declaration.
\<close>

inductive removable_functions :: "string list \<Rightarrow> string list \<Rightarrow> bool" where
  rf_none: "removable_functions [] []"
| rf_plain:
    "\<not> targeted l \<Longrightarrow> removable_functions ls ks \<Longrightarrow> removable_functions (l # ls) (l # ks)"
| rf_function:
    "targeted d \<Longrightarrow> body \<noteq> [] \<Longrightarrow> function_ends False 0 (d # body) \<Longrightarrow>
     has_brace d \<or> has_brace (hd body) \<Longrightarrow> \<forall>l \<in> set body. \<not> targeted l \<Longrightarrow>
     removable_functions rest ks \<Longrightarrow> removable_functions (d # body @ rest) ks"

subsection \<open>What the loop takes for a function\<close>

text \<open>
  The loop's own scan, for the proofs. \<open>scan_closes n body\<close>: after a declaration line
  that leaves the count at \<open>n\<close>, the loop drops exactly the lines \<open>body\<close>: there is at
  least one, none of them is a targeted declaration (which would start the count
  afresh), and the last, and no earlier one, brings the count to zero.
  \<open>scan_removes ls ks\<close>: the loop, run on \<open>ls\<close>, keeps \<open>ks\<close>.
\<close>

fun scan_closes :: "int \<Rightarrow> string list \<Rightarrow> bool" where
  "scan_closes n [] = False"
| "scan_closes n (l # ls) =
     (\<not> targeted l \<and>
      (if n + brace_delta l = 0 then ls = [] else scan_closes (n + brace_delta l) ls))"

inductive scan_removes :: "string list \<Rightarrow> string list \<Rightarrow> bool" where
  scan_none: "scan_removes [] []"
| scan_plain:
    "\<not> targeted l \<Longrightarrow> scan_removes ls ks \<Longrightarrow> scan_removes (l # ls) (l # ks)"
| scan_block:
    "targeted d \<Longrightarrow> scan_closes (brace_delta d) body \<Longrightarrow> scan_removes rest ks \<Longrightarrow>
     scan_removes (d # body @ rest) ks"

subsection \<open>Sample guard files\<close>

text \<open>
  A small generated guard file: an import, a generic guard to remove, a guard to
  keep, and the excluded guard of \<^verbatim>\<open>ExtendedKey\<close>; the lines of it that are to stay;
  a line that imports twice; a guard to remove whose signature runs over three
  lines; and a guard to remove with the declaration line of another inside it.
\<close>

definition sample_guards :: string where
  \<open>sample_guards = join_lines
     [''import { ZSet } from "./iris_wasm";'',
      ''export function isZSet(obj: unknown): obj is ZSet {'',
      ''    return isZBase(obj)'',
      ''}'',
      ''export function isNote(obj: unknown): obj is Note {'',
      ''    return true'',
      ''}'',
      ''export function isExtendedKey(obj: unknown): obj is ExtendedKey {'',
      ''    return false'',
      ''}'',
      '''']\<close>

definition sample_kept :: "string list" where
  \<open>sample_kept =
     [''import { ZSet } from "./iris_wasm";'',
      ''export function isNote(obj: unknown): obj is Note {'',
      ''    return true'',
      ''}'',
      '''']\<close>

definition two_imports :: string where
  \<open>two_imports = ''import { A } from "./iris_wasm"; import { B } from "./iris_wasm";''\<close>


definition long_signature :: string where
  "long_signature = join_lines
     [''export function isZMap('',
      ''    obj: unknown'',
      ''): obj is ZMap {'',
      ''    return true'',
      ''}'']"

definition nested_declaration :: string where
  "nested_declaration = join_lines
     [''export function isZSet(obj: unknown): obj is ZSet {'',
      ''export function isZMap(obj: unknown): obj is ZMap {'',
      ''}'',
      ''}'']"

section \<open>update-package-json.js\<close>

text \<open>
  The script reads \<^verbatim>\<open>pkg/package.json\<close>, makes sure \<^verbatim>\<open>iris_wasm.guard.ts\<close> is listed
  under \<^verbatim>\<open>files\<close>, and writes the manifest back when it had to add the entry. Any
  exception is caught and ends the run with exit code 1.

  \<^verbatim>\<open>JSON.parse\<close> and \<^verbatim>\<open>JSON.stringify(_, null, 2)\<close> belong to the platform and are
  parameters of the model: \<open>parse\<close> gives \<open>None\<close> where \<^verbatim>\<open>JSON.parse\<close> raises. The
  file is \<open>None\<close> when it does not exist, and a write is taken to succeed.
\<close>

datatype outcome = Added | AlreadyPresent | Failed

text \<open>
  What a run did: the message it logged, the text it wrote (if it wrote), and the
  object \<^verbatim>\<open>pkg\<close> it held at the end (if it got that far).
\<close>

record run_result =
  outcome :: outcome
  written :: "string option"
  pkg_after :: "jsval option"

definition fileToAdd :: string where
  "fileToAdd = ''iris_wasm.guard.ts''"

definition failed :: run_result where
  "failed = \<lparr>outcome = Failed, written = None, pkg_after = None\<rparr>"

definition already :: "jsval \<Rightarrow> run_result" where
  "already pkg = \<lparr>outcome = AlreadyPresent, written = None, pkg_after = Some pkg\<rparr>"

definition added :: "(jsval \<Rightarrow> string) \<Rightarrow> jsval \<Rightarrow> run_result" where
  "added stringify pkg =
     \<lparr>outcome = Added, written = Some (stringify pkg @ [newline]), pkg_after = Some pkg\<rparr>"

text \<open>
  The body of the \<^verbatim>\<open>try\<close> block, by the shape of the parsed value.
  \<^item> On an object, a falsy \<^verbatim>\<open>files\<close> becomes the empty array. An array is searched
    with \<^verbatim>\<open>includes\<close> and extended with \<^verbatim>\<open>push\<close>. A non-empty string also has
    \<^verbatim>\<open>includes\<close> (a substring test) but no \<^verbatim>\<open>push\<close>, which raises. Any other
    truthy value has no \<^verbatim>\<open>includes\<close>, which raises.
  \<^item> On an array, \<^verbatim>\<open>files\<close> is set and extended as a property of the array object,
    which \<^verbatim>\<open>JSON.stringify\<close> does not print: the array is written back as it was.
  \<^item> On \<^verbatim>\<open>null\<close> the property read raises. On a boolean, a number or a string
    the assignment to \<^verbatim>\<open>pkg.files\<close> is lost and \<^verbatim>\<open>pkg.files.includes\<close> raises.
\<close>

definition update_package_json ::
  "(string \<Rightarrow> jsval option) \<Rightarrow> (jsval \<Rightarrow> string) \<Rightarrow> string option \<Rightarrow> run_result" where
  "update_package_json parse stringify file =
     (case file of
        None \<Rightarrow> failed
      | Some content \<Rightarrow>
          (case parse content of
             None \<Rightarrow> failed
           | Some pkg \<Rightarrow>
               (case pkg of
                  JObj fs \<Rightarrow>
                    (let fs1 = (if falsy (get_prop fs ''files'')
                                then set_prop fs ''files'' (JArr []) else fs)
                     in case get_prop fs1 ''files'' of
                          JArr ys \<Rightarrow>
                            if Some (JStr fileToAdd) \<in> set ys then already (JObj fs1)
                            else added stringify
                                   (JObj (set_prop fs1 ''files''
                                      (JArr (ys @ [Some (JStr fileToAdd)]))))
                        | JStr s \<Rightarrow>
                            if str_includes s fileToAdd then already (JObj fs1) else failed
                        | _ \<Rightarrow> failed)
                | JArr xs \<Rightarrow> added stringify (JArr xs)
                | _ \<Rightarrow> failed)))"





subsection \<open>Sample manifests\<close>

text \<open>
  A small manifest before the script ran and the text the script writes for it, with
  a reader and a printer that know these texts. They give the theorems about the
  script a concrete run.
\<close>

definition manifest_text :: string where
  \<open>manifest_text = ''{"name":"iris-wasm","files":["iris_wasm.js"]}''\<close>

definition manifest_pkg :: jsval where
  "manifest_pkg =
     JObj [(''name'', JStr ''iris-wasm''), (''files'', JArr [Some (JStr ''iris_wasm.js'')])]"

definition manifest_pkg_added :: jsval where
  "manifest_pkg_added =
     JObj [(''name'', JStr ''iris-wasm''),
           (''files'', JArr [Some (JStr ''iris_wasm.js''), Some (JStr ''iris_wasm.guard.ts'')])]"

definition manifest_text_added :: string where
  \<open>manifest_text_added = join_lines
     [''{'',
      ''  "name": "iris-wasm",'',
      ''  "files": ['',
      ''    "iris_wasm.js",'',
      ''    "iris_wasm.guard.ts"'',
      ''  ]'',
      ''}'']\<close>

definition twice_text :: string where
  \<open>twice_text = ''{"files":["iris_wasm.guard.ts","iris_wasm.guard.ts"]}''\<close>

definition twice_pkg :: jsval where
  "twice_pkg =
     JObj [(''files'',
            JArr [Some (JStr ''iris_wasm.guard.ts''), Some (JStr ''iris_wasm.guard.ts'')])]"

definition sample_parse :: "string \<Rightarrow> jsval option" where
  "sample_parse s =
     (if s = manifest_text then Some manifest_pkg
      else if s = manifest_text_added @ [newline] then Some manifest_pkg_added
      else if s = twice_text then Some twice_pkg
      else None)"

definition sample_stringify :: "jsval \<Rightarrow> string" where
  "sample_stringify v = (if v = manifest_pkg_added then manifest_text_added else [])"

section \<open>The transaction builder\<close>

text \<open>
  Modelled from the spec: the transaction builder behind the wasm binding
  (\<^verbatim>\<open>TxBuilder\<close> with \<^verbatim>\<open>simpleSpend\<close>, \<^verbatim>\<open>sign\<close> and \<^verbatim>\<open>build\<close>) is Rust code that is
  not among the sources; the README only calls it. Every definition of this section
  follows the words of the specification (sections 3, 4.3 and 4.4), not code.
\<close>

type_synonym digest = string

type_synonym amount = nat

text \<open>
  Modelled from the spec: a note, of which the builder reads the name and the value
  (section 3). The type \<^verbatim>\<open>Note\<close> is missing from the sources.
\<close>

record note_t =
  note_name :: digest
  note_value :: amount

text \<open>
  Modelled from the spec: a spend condition, which \<^verbatim>\<open>simpleSpend\<close> only carries
  along. The type \<^verbatim>\<open>SpendCondition\<close> is missing from the sources.
\<close>

typedecl spend_condition

text \<open>
  Modelled from the spec: the settings, of which the builder uses \<^verbatim>\<open>feeFor\<close>
  (section 4.3). The specification leaves the argument of \<^verbatim>\<open>feeFor\<close> open ("size or
  shape"); here it is the number of inputs and the number of output conditions. The
  type \<^verbatim>\<open>TxEngineSettings\<close> is missing from the sources.
\<close>

record tx_settings =
  feeFor :: "nat \<times> nat \<Rightarrow> amount"

text \<open>
  Modelled from the spec: the life cycle of a builder (section 4.4) and the
  conservation and state errors of section 7 that \<^verbatim>\<open>simpleSpend\<close> can end with. The
  builder's state type and error type are missing from the sources.
\<close>

datatype builder_state = Draft | Composed | Signed | Built

datatype builder_error = InsufficientFunds | UnspentResidual | WrongBuilderState

text \<open>
  Modelled from the spec: an output is the gift to the recipient or the change to
  the refund digest (section 4.4: "primary recipient output first, then synthesized
  change last"). The output type is missing from the sources.
\<close>

datatype output_role = Recipient | Change

record tx_output =
  out_role :: output_role
  out_to :: digest
  out_amount :: amount

text \<open>
  Modelled from the spec: the builder aggregate of section 3, without the
  signatures, which \<^verbatim>\<open>simpleSpend\<close> does not touch. The type \<^verbatim>\<open>TxBuilder\<close> is missing
  from the sources.
\<close>

record tx_builder =
  lifecycle :: builder_state
  tx_inputs :: "note_t list"
  tx_conditions :: "spend_condition list"
  tx_outputs :: "tx_output list"
  tx_gift :: amount
  tx_fee :: amount

text \<open>
  Modelled from the spec: a fresh builder is in \<^verbatim>\<open>Draft\<close>, with no inputs and no
  outputs yet (section 4.4). The constructor of \<^verbatim>\<open>TxBuilder\<close> is missing from the
  sources.
\<close>

definition new_builder :: tx_builder where
  "new_builder =
     \<lparr>lifecycle = Draft, tx_inputs = [], tx_conditions = [], tx_outputs = [],
      tx_gift = 0, tx_fee = 0\<rparr>"

text \<open>
  Modelled from the spec: the fee of a spend is the override when one is given and
  \<^verbatim>\<open>settings.feeFor(...)\<close> otherwise (section 4.4). The fee computation of
  \<^verbatim>\<open>simpleSpend\<close> is missing from the sources.
\<close>

definition spend_fee ::
  "tx_settings \<Rightarrow> note_t list \<Rightarrow> spend_condition list \<Rightarrow> amount option \<Rightarrow> amount" where
  "spend_fee settings ins conds feeOverride =
     (case feeOverride of
        Some f \<Rightarrow> f
      | None \<Rightarrow> feeFor settings (length ins, length conds))"

text \<open>
  Modelled from the spec: the sum of the input values. The note selection code of
  \<^verbatim>\<open>simpleSpend\<close> is missing from the sources.
\<close>

definition inputs_total :: "note_t list \<Rightarrow> amount" where
  "inputs_total ins = sum_list (map note_value ins)"

text \<open>
  Modelled from the spec: \<^verbatim>\<open>simpleSpend\<close> (section 4.4), which is missing from the
  sources. It returns the error, if any, and the builder the caller holds afterwards.
  \<^item> It is the transition from \<^verbatim>\<open>Draft\<close> to \<^verbatim>\<open>Composed\<close>; no state is re-enterable,
    so on a builder in another state it fails with \<^verbatim>\<open>WrongBuilderState\<close>.
  \<^item> "Constraints: inputs non-empty; sum(inputs.value) >= gift + fee, else fails
    with InsufficientFunds."
  \<^item> "If includeChange is true and sum(inputs.value) > gift + fee, a change output
    is synthesized to the refund digest for the residual amount; otherwise residual
    must be exactly zero or the call fails with UnspentResidual."
  \<^item> A conservation error leaves the builder in \<^verbatim>\<open>Draft\<close> (section 7).
  The timelock and version checks of sections 4.2 and 4.3 are not part of this
  contract and are left out: the specification does not order them against it.
\<close>

definition simpleSpend ::
  "tx_settings \<Rightarrow> tx_builder \<Rightarrow> note_t list \<Rightarrow> spend_condition list \<Rightarrow> digest \<Rightarrow> amount \<Rightarrow>
   amount option \<Rightarrow> digest \<Rightarrow> bool \<Rightarrow> builder_error option \<times> tx_builder" where
  "simpleSpend settings b ins conds recipientDigest g feeOverride refundDigest includeChange =
     (let f = spend_fee settings ins conds feeOverride;
          total = inputs_total ins;
          gift_out = \<lparr>out_role = Recipient, out_to = recipientDigest, out_amount = g\<rparr>;
          change_out =
            \<lparr>out_role = Change, out_to = refundDigest, out_amount = total - (g + f)\<rparr>;
          composed = b\<lparr>lifecycle := Composed, tx_inputs := ins, tx_conditions := conds,
                       tx_gift := g, tx_fee := f\<rparr>
      in if lifecycle b \<noteq> Draft then (Some WrongBuilderState, b)
         else if ins = [] \<or> total < g + f then (Some InsufficientFunds, b)
         else if includeChange \<and> total > g + f
           then (None, composed\<lparr>tx_outputs := [gift_out, change_out]\<rparr>)
         else if total - (g + f) \<noteq> 0 then (Some UnspentResidual, b)
         else (None, composed\<lparr>tx_outputs := [gift_out]\<rparr>))"

text \<open>
  Modelled from the spec: the change amount of a composed builder is what its change
  outputs carry, 0 when it has none (section 8). No accessor for it is in the sources.
\<close>

definition changeAmount :: "tx_builder \<Rightarrow> amount" where
  "changeAmount b =
     sum_list (map out_amount (filter (\<lambda>out. out_role out = Change) (tx_outputs b)))"

text \<open>
  Modelled from the spec: the sum of the output amounts of a builder, for the
  conservation "inputs = outputs + fee" of section 2. No accessor for it is in the
  sources.
\<close>

definition outputs_total :: "tx_builder \<Rightarrow> amount" where
  "outputs_total b = sum_list (map out_amount (tx_outputs b))"

section \<open>Properties of the generic guards\<close>


lemma js_every_iff: "js_every p xs = (\<forall>v. Some v \<in> set xs \<longrightarrow> p v)"
  by (induction p xs rule: js_every.induct) auto

lemma js_every_dense:
  "None \<notin> set xs \<Longrightarrow> js_every p xs = (\<forall>i < length xs. p (js_index xs i))"
proof (induction p xs rule: js_every.induct)
  case (1 p)
  show ?case by simp
next
  case (2 p xs)
  then show ?case by simp
next
  case (3 p v xs)
  then have ih: "js_every p xs = (\<forall>i < length xs. p (js_index xs i))"
    by simp
  have "(\<forall>i < length (Some v # xs). p (js_index (Some v # xs) i))
      = (p v \<and> (\<forall>i < length xs. p (js_index xs i)))"
  proof
    assume all: "\<forall>i < length (Some v # xs). p (js_index (Some v # xs) i)"
    from all have "p (js_index (Some v # xs) 0)" by simp
    then have "p v" by (simp add: js_index_def)
    moreover have "p (js_index xs i)" if "i < length xs" for i
    proof -
      from that all have "p (js_index (Some v # xs) (Suc i))" by simp
      with that show ?thesis by (simp add: js_index_def)
    qed
    ultimately show "p v \<and> (\<forall>i < length xs. p (js_index xs i))" by simp
  next
    assume both: "p v \<and> (\<forall>i < length xs. p (js_index xs i))"
    show "\<forall>i < length (Some v # xs). p (js_index (Some v # xs) i)"
    proof (intro allI impI)
      fix i assume "i < length (Some v # xs)"
      then show "p (js_index (Some v # xs) i)"
        using both by (cases i) (simp_all add: js_index_def)
    qed
  qed
  with ih show ?case by simp
qed

lemma isZMapEntry_JArr:
  "isZMapEntry (JArr xs) isK isV =
     (\<exists>x y. xs = [x, y] \<and> isK (js_read x) \<and> isV (js_read y))"
proof (cases xs)
  case Nil
  then show ?thesis by (simp add: isZMapEntry_def)
next
  case (Cons a ys)
  note xs = this
  show ?thesis
  proof (cases ys)
    case Nil
    with xs show ?thesis by (simp add: isZMapEntry_def)
  next
    case (Cons b zs)
    with xs show ?thesis
      by (cases zs) (simp_all add: isZMapEntry_def js_index_def)
  qed
qed

lemma isZMapEntry_not_array: "\<not> isArray obj \<Longrightarrow> \<not> isZMapEntry obj isK isV"
  by (cases obj) (simp_all add: isZMapEntry_def)

lemma isZMapEntry_iff:
  "isZMapEntry obj isK isV =
     (\<exists>x y. obj = JArr [x, y] \<and> isK (js_read x) \<and> isV (js_read y))"
proof (cases obj)
  case (JArr xs)
  then show ?thesis by (simp add: isZMapEntry_JArr)
qed (simp_all add: isZMapEntry_def)

lemma isZMap_JArr:
  "isZMap (JArr es) isK isV = (\<forall>e. Some e \<in> set es \<longrightarrow> isZMapEntry e isK isV)"
  by (simp add: isZMap_def js_every_iff)

lemma isZMap_not_array: "\<not> isArray obj \<Longrightarrow> \<not> isZMap obj isK isV"
  by (simp add: isZMap_def)

lemma isZMap_iff:
  "isZMap obj isK isV =
     (\<exists>es. obj = JArr es \<and> (\<forall>e. Some e \<in> set es \<longrightarrow> isZMapEntry e isK isV))"
proof (cases obj)
  case (JArr xs)
  then show ?thesis by (simp add: isZMap_JArr)
qed (simp_all add: isZMap_def)

lemma isZMap_dense:
  "None \<notin> set es \<Longrightarrow>
     isZMap (JArr es) isK isV = (\<forall>i < length es. isZMapEntry (js_index es i) isK isV)"
  by (simp add: isZMap_def js_every_dense)

text \<open>
  C9, as the guards have it. \<open>isZMapEntry\<close> holds exactly of an array of length 2
  whose slot 0, read as \<^verbatim>\<open>obj[0]\<close>, passes \<open>isK\<close> and whose slot 1, read as \<^verbatim>\<open>obj[1]\<close>,
  passes \<open>isV\<close>. \<open>isZMap\<close> holds exactly of an array all of whose present elements are
  such entries: \<^verbatim>\<open>every\<close> skips the holes of a sparse array. On an array without
  holes that is every element, read by index. On a value that is not an array both
  return false (no branch of either guard raises), the empty array is a map, and the
  empty array is not an entry.
\<close>

theorem isZMap_guards_exact:
  "(isZMapEntry obj isK isV =
      (\<exists>x y. obj = JArr [x, y] \<and> isK (js_read x) \<and> isV (js_read y)))
   \<and> (isZMap obj isK isV =
        (\<exists>es. obj = JArr es \<and> (\<forall>e. Some e \<in> set es \<longrightarrow> isZMapEntry e isK isV)))
   \<and> (None \<notin> set es \<longrightarrow>
        isZMap (JArr es) isK isV = (\<forall>i < length es. isZMapEntry (js_index es i) isK isV))
   \<and> (\<not> isArray obj \<longrightarrow> \<not> isZMapEntry obj isK isV \<and> \<not> isZMap obj isK isV)
   \<and> isZMap (JArr []) isK isV
   \<and> \<not> isZMapEntry (JArr []) isK isV"
proof (intro conjI impI)
  show "isZMapEntry obj isK isV =
      (\<exists>x y. obj = JArr [x, y] \<and> isK (js_read x) \<and> isV (js_read y))"
    by (rule isZMapEntry_iff)
  show "isZMap obj isK isV =
      (\<exists>es. obj = JArr es \<and> (\<forall>e. Some e \<in> set es \<longrightarrow> isZMapEntry e isK isV))"
    by (rule isZMap_iff)
  show "isZMap (JArr es) isK isV = (\<forall>i < length es. isZMapEntry (js_index es i) isK isV)"
    if "None \<notin> set es"
    using that by (rule isZMap_dense)
  show "\<not> isZMapEntry obj isK isV" if "\<not> isArray obj"
    using that by (rule isZMapEntry_not_array)
  show "\<not> isZMap obj isK isV" if "\<not> isArray obj"
    using that by (rule isZMap_not_array)
  show "isZMap (JArr []) isK isV"
    by (simp add: isZMap_JArr)
  show "\<not> isZMapEntry (JArr []) isK isV"
    by (simp add: isZMapEntry_JArr)
qed

text \<open>
  The theorem at concrete values: a string is not an array and fails both guards;
  a one-entry map with a string key and a boolean value has no hole and passes, and
  so does its only element, read by index.
\<close>

theorem isZMap_guards_exact_witness:
  "\<not> isArray (JStr ''k'')
   \<and> \<not> isZMapEntry (JStr ''k'') (\<lambda>v. v = JStr ''k'') (\<lambda>v. v = JBool True)
   \<and> \<not> isZMap (JStr ''k'') (\<lambda>v. v = JStr ''k'') (\<lambda>v. v = JBool True)
   \<and> None \<notin> set [Some (JArr [Some (JStr ''k''), Some (JBool True)])]
   \<and> isZMap (JArr [Some (JArr [Some (JStr ''k''), Some (JBool True)])])
        (\<lambda>v. v = JStr ''k'') (\<lambda>v. v = JBool True)
   \<and> isZMapEntry (js_index [Some (JArr [Some (JStr ''k''), Some (JBool True)])] 0)
        (\<lambda>v. v = JStr ''k'') (\<lambda>v. v = JBool True)"
proof -
  let ?isK = "\<lambda>v. v = JStr ''k''"
  let ?isV = "\<lambda>v. v = JBool True"
  let ?es = "[Some (JArr [Some (JStr ''k''), Some (JBool True)])]"
  note inst = isZMap_guards_exact [of "JStr ''k''" ?isK ?isV ?es]
  have n: "\<not> isArray (JStr ''k'')" by simp
  have d: "None \<notin> set ?es" by simp
  have m: "isZMap (JArr ?es) ?isK ?isV"
    by (simp add: isZMap_def isZMapEntry_def js_index_def)
  from inst [THEN conjunct2, THEN conjunct2, THEN conjunct2, THEN conjunct1, THEN mp, OF n]
  have both: "\<not> isZMapEntry (JStr ''k'') ?isK ?isV \<and> \<not> isZMap (JStr ''k'') ?isK ?isV" .
  from both have a: "\<not> isZMapEntry (JStr ''k'') ?isK ?isV" by (rule conjunct1)
  from both have b: "\<not> isZMap (JStr ''k'') ?isK ?isV" by (rule conjunct2)
  from inst [THEN conjunct2, THEN conjunct2, THEN conjunct1, THEN mp, OF d] m
  have "\<forall>i < length ?es. isZMapEntry (js_index ?es i) ?isK ?isV" by simp
  then have e: "isZMapEntry (js_index ?es 0) ?isK ?isV" by simp
  from n a b d m e show ?thesis by (intro conjI)
qed

text \<open>
  C9 as stated fails on a sparse array. \<^verbatim>\<open>new Array(1)\<close> has length 1 and one hole:
  its element at index 0 reads \<^verbatim>\<open>undefined\<close>, which is no entry, and yet \<open>isZMap\<close>
  answers true, whatever the callbacks, because \<^verbatim>\<open>every\<close> never visits the hole.
\<close>

theorem isZMap_sparse_counterexample:
  "(\<forall>isK isV. isZMap (JArr [None]) isK isV)
   \<and> isArray (JArr [None])
   \<and> length [None :: jsval option] = 1
   \<and> js_index [None] 0 = JUndefined
   \<and> (\<forall>isK isV. \<not> isZMapEntry (js_index [None] 0) isK isV)"
  by (simp add: isZMap_def isZMapEntry_def js_index_def)

section \<open>Properties of the string operations\<close>

lemma startsWith_iff: "startsWith s p = (\<exists>r. s = p @ r)"
  by (induction s p rule: startsWith.induct) auto

lemma startsWith_append_same: "startsWith (p @ r) p"
  by (simp add: startsWith_iff)

lemma startsWith_drop: "startsWith s p \<Longrightarrow> p @ drop (length p) s = s"
  by (auto simp: startsWith_iff)

lemma startsWith_cut:
  "q \<notin> set p \<Longrightarrow> startsWith (u @ q # v) p = startsWith u p"
proof (induction u arbitrary: p)
  case Nil
  then show ?case by (cases p) auto
next
  case (Cons c cs)
  then show ?case by (cases p) auto
qed

lemma startsWith_hd: "p \<noteq> [] \<Longrightarrow> hd p \<noteq> c \<Longrightarrow> \<not> startsWith (c # cs) p"
  by (cases p) auto

lemma replace_first_cases:
  "(replace_first s pat rep = s \<and> \<not> str_includes s pat)
   \<or> (\<exists>a b. s = a @ pat @ b \<and> replace_first s pat rep = a @ rep @ b)"
proof (induction s)
  case Nil
  show ?case by (cases pat) simp_all
next
  case (Cons c cs)
  show ?case
  proof (cases "startsWith (c # cs) pat")
    case True
    then have "c # cs = [] @ pat @ drop (length pat) (c # cs)"
      by (simp add: startsWith_drop)
    moreover from True have "replace_first (c # cs) pat rep = [] @ rep @ drop (length pat) (c # cs)"
      by simp
    ultimately show ?thesis by blast
  next
    case False
    from Cons.IH show ?thesis
    proof
      assume "replace_first cs pat rep = cs \<and> \<not> str_includes cs pat"
      with False show ?thesis by simp
    next
      assume "\<exists>a b. cs = a @ pat @ b \<and> replace_first cs pat rep = a @ rep @ b"
      then obtain a b where "cs = a @ pat @ b" "replace_first cs pat rep = a @ rep @ b"
        by blast
      with False have "c # cs = (c # a) @ pat @ b
          \<and> replace_first (c # cs) pat rep = (c # a) @ rep @ b"
        by simp
      then show ?thesis by blast
    qed
  qed
qed

lemma replace_first_absent: "\<not> str_includes s pat \<Longrightarrow> replace_first s pat rep = s"
  by (induction s) (auto split: if_splits)

lemma replace_first_skip:
  assumes "pat \<noteq> []" "hd pat \<notin> set a"
  shows "replace_first (a @ s) pat rep = a @ replace_first s pat rep"
  using assms(2)
proof (induction a)
  case Nil
  show ?case by simp
next
  case (Cons c cs)
  then have "\<not> startsWith (c # cs @ s) pat"
    using assms(1) by (intro startsWith_hd) auto
  with Cons show ?case by simp
qed

lemma replace_first_here:
  "pat \<noteq> [] \<Longrightarrow> replace_first (pat @ b) pat rep = rep @ b"
  by (cases pat) (simp_all add: startsWith_append_same [of "_ # _", simplified])

section \<open>Properties of filter-guards.js\<close>

subsection \<open>The loop drops exactly what its scan takes for a function\<close>

lemma count_braces_delta: "count_braces n l = n + brace_delta l"
  unfolding brace_delta_def
proof (induction l arbitrary: n)
  case Nil
  show ?case by simp
next
  case (Cons c cs)
  have "count_braces n (c # cs) =
      (if c = CHR ''{'' then n + 1 else if c = CHR ''}'' then n - 1 else n) + count_braces 0 cs"
    using Cons.IH [of "if c = CHR ''{'' then n + 1 else if c = CHR ''}'' then n - 1 else n"]
    by simp
  moreover have "count_braces 0 (c # cs) =
      (if c = CHR ''{'' then 1 else if c = CHR ''}'' then - 1 else 0) + count_braces 0 cs"
    using Cons.IH [of "if c = CHR ''{'' then 0 + 1 else if c = CHR ''}'' then 0 - 1 else 0"]
    by simp
  ultimately show ?case by simp
qed

lemma step_plain:
  assumes "\<not> targeted l" "\<not> insideGuard st" "\<not> skip st"
  shows "step st l = st\<lparr>newLines := newLines st @ [l]\<rparr>"
  using assms by (simp add: step_def targeted_def)

lemma step_body_inside:
  assumes "\<not> targeted l" "insideGuard st"
  shows "step st l =
    (if braceCount st + brace_delta l = 0
     then st\<lparr>braceCount := 0, insideGuard := False, currentGuardName := []\<rparr>
     else st\<lparr>braceCount := braceCount st + brace_delta l\<rparr>)"
  using assms by (simp add: step_def targeted_def count_braces_delta Let_def)

lemma step_body_skip:
  assumes "\<not> targeted l" "\<not> insideGuard st" "skip st"
  shows "step st l =
    (if braceCount st + brace_delta l = 0
     then st\<lparr>braceCount := 0, skip := False\<rparr>
     else st\<lparr>braceCount := braceCount st + brace_delta l\<rparr>)"
  using assms by (simp add: step_def targeted_def count_braces_delta Let_def)

lemma step_start:
  assumes "targeted d" "\<not> insideGuard st" "\<not> skip st"
  shows "newLines (step st d) = newLines st
       \<and> braceCount (step st d) = brace_delta d
       \<and> (insideGuard (step st d) \<noteq> skip (step st d))"
proof (cases "guard_start d")
  case (Some g)
  with assms show ?thesis
    by (simp add: step_def brace_delta_def)
next
  case None
  with assms(1) obtain e where "exclude_start d = Some e"
    by (auto simp: targeted_def)
  with None assms show ?thesis
    by (simp add: step_def brace_delta_def)
qed

lemma body_inside:
  assumes "scan_closes (braceCount st) body" "insideGuard st"
  shows "newLines (foldl step st body) = newLines st
       \<and> \<not> insideGuard (foldl step st body)
       \<and> skip (foldl step st body) = skip st"
  using assms
proof (induction body arbitrary: st)
  case Nil
  then show ?case by simp
next
  case (Cons l ls)
  from Cons.prems have nt: "\<not> targeted l" by simp
  show ?case
  proof (cases "braceCount st + brace_delta l = 0")
    case True
    with Cons.prems have "ls = []" by simp
    with True nt Cons.prems(2) show ?thesis
      by (simp add: step_body_inside)
  next
    case False
    let ?st = "st\<lparr>braceCount := braceCount st + brace_delta l\<rparr>"
    from False nt Cons.prems(2) have s: "step st l = ?st"
      by (simp add: step_body_inside)
    from False Cons.prems(1) have "scan_closes (braceCount ?st) ls" by simp
    moreover from Cons.prems(2) have "insideGuard ?st" by simp
    ultimately have "newLines (foldl step ?st ls) = newLines ?st
       \<and> \<not> insideGuard (foldl step ?st ls)
       \<and> skip (foldl step ?st ls) = skip ?st"
      by (rule Cons.IH)
    with s show ?thesis by simp
  qed
qed

lemma body_skip:
  assumes "scan_closes (braceCount st) body" "\<not> insideGuard st" "skip st"
  shows "newLines (foldl step st body) = newLines st
       \<and> \<not> insideGuard (foldl step st body)
       \<and> \<not> skip (foldl step st body)"
  using assms
proof (induction body arbitrary: st)
  case Nil
  then show ?case by simp
next
  case (Cons l ls)
  from Cons.prems have nt: "\<not> targeted l" by simp
  show ?case
  proof (cases "braceCount st + brace_delta l = 0")
    case True
    with Cons.prems have "ls = []" by simp
    with True nt Cons.prems(2,3) show ?thesis
      by (simp add: step_body_skip)
  next
    case False
    let ?st = "st\<lparr>braceCount := braceCount st + brace_delta l\<rparr>"
    from False nt Cons.prems(2,3) have s: "step st l = ?st"
      by (simp add: step_body_skip)
    from False Cons.prems(1) have "scan_closes (braceCount ?st) ls" by simp
    moreover from Cons.prems(2) have "\<not> insideGuard ?st" by simp
    moreover from Cons.prems(3) have "skip ?st" by simp
    ultimately have "newLines (foldl step ?st ls) = newLines ?st
       \<and> \<not> insideGuard (foldl step ?st ls)
       \<and> \<not> skip (foldl step ?st ls)"
      by (rule Cons.IH)
    with s show ?thesis by simp
  qed
qed

lemma block_dropped:
  assumes "targeted d" "scan_closes (brace_delta d) body" "\<not> insideGuard st" "\<not> skip st"
  shows "newLines (foldl step st (d # body)) = newLines st
       \<and> \<not> insideGuard (foldl step st (d # body))
       \<and> \<not> skip (foldl step st (d # body))"
proof -
  let ?st = "step st d"
  from step_start [OF assms(1,3,4)]
  have nl: "newLines ?st = newLines st" and bc: "braceCount ?st = brace_delta d"
    and fl: "insideGuard ?st \<noteq> skip ?st"
    by simp_all
  from assms(2) bc have cl: "scan_closes (braceCount ?st) body" by simp
  show ?thesis
  proof (cases "insideGuard ?st")
    case True
    with fl have "\<not> skip ?st" by simp
    with body_inside [OF cl True] nl show ?thesis by simp
  next
    case False
    with fl have "skip ?st" by simp
    with body_skip [OF cl False] nl show ?thesis by simp
  qed
qed

lemma foldl_step_scan:
  assumes "scan_removes ls ks" "\<not> insideGuard st" "\<not> skip st"
  shows "newLines (foldl step st ls) = newLines st @ ks
       \<and> \<not> insideGuard (foldl step st ls) \<and> \<not> skip (foldl step st ls)"
  using assms
proof (induction arbitrary: st rule: scan_removes.induct)
  case scan_none
  then show ?case by simp
next
  case (scan_plain l ls ks)
  let ?st = "st\<lparr>newLines := newLines st @ [l]\<rparr>"
  from scan_plain.hyps(1) scan_plain.prems have s: "step st l = ?st"
    by (rule step_plain)
  from scan_plain.prems have "\<not> insideGuard ?st" "\<not> skip ?st" by simp_all
  then have "newLines (foldl step ?st ls) = newLines ?st @ ks
       \<and> \<not> insideGuard (foldl step ?st ls) \<and> \<not> skip (foldl step ?st ls)"
    by (rule scan_plain.IH)
  with s show ?case by simp
next
  case (scan_block d body rest ks)
  let ?st = "foldl step st (d # body)"
  from block_dropped [OF scan_block.hyps(1,2) scan_block.prems]
  have nl: "newLines ?st = newLines st" and a: "\<not> insideGuard ?st" and b: "\<not> skip ?st"
    by simp_all
  from a b have "newLines (foldl step ?st rest) = newLines ?st @ ks
       \<and> \<not> insideGuard (foldl step ?st rest) \<and> \<not> skip (foldl step ?st rest)"
    by (rule scan_block.IH)
  with nl show ?case by simp
qed


subsection \<open>The import rewrites leave declarations and brace counts alone\<close>

lemma targeted_iff: "targeted line = (\<exists>p \<in> set decl_prefixes. startsWith (trim line) p)"
  by (auto simp: targeted_def guard_start_def exclude_start_def decl_prefixes_def
        find_None_iff)

lemma decl_prefixes_shape:
  "p \<in> set decl_prefixes \<Longrightarrow>
     p \<noteq> [] \<and> hd p = CHR ''e'' \<and> last p = CHR ''('' \<and> CHR 0x22 \<notin> set p"
  by (auto simp: decl_prefixes_def guardsToRemove_def excludes_def)

lemma trim_end_prefix: "\<exists>w. t = rev (dropWhile P (rev t)) @ w"
proof -
  have "rev (dropWhile P (rev t)) @ rev (takeWhile P (rev t))
      = rev (takeWhile P (rev t) @ dropWhile P (rev t))"
    by (simp only: rev_append)
  also have "\<dots> = t" by simp
  finally have "t = rev (dropWhile P (rev t)) @ rev (takeWhile P (rev t))" by (rule sym)
  then show ?thesis ..
qed

lemma trim_end_keeps:
  assumes "p \<noteq> []" "\<not> P (last p)"
  shows "\<exists>r'. rev (dropWhile P (rev (p @ r))) = p @ r'"
proof (cases "\<forall>x \<in> set (rev r). P x")
  case True
  from assms have "dropWhile P (rev p) = rev p"
    by (cases "rev p") (auto simp: last_rev [symmetric] hd_rev)
  moreover have "dropWhile P (rev r @ rev p) = dropWhile P (rev p)"
    by (rule dropWhile_append2) (use True in auto)
  ultimately have "rev (dropWhile P (rev (p @ r))) = p @ []"
    by simp
  then show ?thesis ..
next
  case False
  then obtain x where "x \<in> set (rev r)" "\<not> P x" by blast
  then have "dropWhile P (rev r @ rev p) = dropWhile P (rev r) @ rev p"
    by (rule dropWhile_append1)
  then have "rev (dropWhile P (rev (p @ r))) = p @ rev (dropWhile P (rev r))"
    by simp
  then show ?thesis ..
qed

lemma startsWith_trim:
  assumes "p \<noteq> []" "\<not> is_space (last p)"
  shows "startsWith (trim s) p = startsWith (dropWhile is_space s) p"
proof
  assume "startsWith (trim s) p"
  then obtain r where r: "trim s = p @ r" by (auto simp: startsWith_iff)
  obtain w where "dropWhile is_space s = trim s @ w"
    unfolding trim_def using trim_end_prefix [of "dropWhile is_space s" is_space] by blast
  with r have "dropWhile is_space s = p @ (r @ w)" by simp
  then show "startsWith (dropWhile is_space s) p" unfolding startsWith_iff ..
next
  assume "startsWith (dropWhile is_space s) p"
  then obtain r where r: "dropWhile is_space s = p @ r" by (auto simp: startsWith_iff)
  from trim_end_keeps [of p is_space r] assms obtain r' where
    "rev (dropWhile is_space (rev (p @ r))) = p @ r'" by blast
  with r have "trim s = p @ r'" by (simp add: trim_def)
  then show "startsWith (trim s) p" unfolding startsWith_iff ..
qed

lemma not_space_paren: "\<not> is_space CHR ''(''" and not_space_brace: "\<not> is_space CHR ''{''"
  and not_space_e: "\<not> is_space CHR ''e''" and not_space_i: "\<not> is_space CHR ''i''"
  and not_space_f: "\<not> is_space CHR ''f''"
  by (simp_all add: is_space_def)

lemma targeted_dropWhile:
  "targeted line = (\<exists>p \<in> set decl_prefixes. startsWith (dropWhile is_space line) p)"
proof -
  have "startsWith (trim line) p = startsWith (dropWhile is_space line) p"
    if "p \<in> set decl_prefixes" for p
    using decl_prefixes_shape [OF that] not_space_paren
    by (intro startsWith_trim) simp_all
  then show ?thesis unfolding targeted_iff by blast
qed

lemma count_braces_append: "count_braces n (a @ b) = count_braces (count_braces n a) b"
  by (induction a arbitrary: n) simp_all

lemma brace_delta_append: "brace_delta (a @ b) = brace_delta a + brace_delta b"
  by (simp add: brace_delta_def count_braces_append count_braces_delta [of "count_braces 0 a"])

lemma brace_delta_replace_first:
  assumes "brace_delta pat = brace_delta rep"
  shows "brace_delta (replace_first s pat rep) = brace_delta s"
  using replace_first_cases [of s pat rep] assms
  by (auto simp: brace_delta_append)

lemma brace_delta_fix_imports: "brace_delta (fix_imports line) = brace_delta line"
proof -
  have a: "brace_delta ''import {'' = brace_delta ''import type {''"
    by (simp add: brace_delta_def)
  have b: \<open>brace_delta ''from "./iris_wasm"'' = brace_delta ''from "./iris_wasm.js"''\<close>
    by (simp add: brace_delta_def)
  show ?thesis
    by (simp add: fix_imports_def brace_delta_replace_first [OF a]
        brace_delta_replace_first [OF b])
qed

lemma dropWhile_spaces: "\<forall>x \<in> set ws. is_space x \<Longrightarrow> dropWhile is_space (ws @ s) = dropWhile is_space s"
  by (rule dropWhile_append2) auto

lemma not_targeted_import:
  assumes "\<forall>x \<in> set ws. is_space x"
  shows "\<not> targeted (ws @ CHR ''i'' # c)"
proof -
  have "dropWhile is_space (ws @ CHR ''i'' # c) = CHR ''i'' # c"
    using assms by (simp add: dropWhile_spaces not_space_i)
  moreover have "\<not> startsWith (CHR ''i'' # c) p" if "p \<in> set decl_prefixes" for p
    using decl_prefixes_shape [OF that] by (intro startsWith_hd) simp_all
  ultimately show ?thesis
    by (auto simp: targeted_dropWhile)
qed

lemma targeted_from_rewrite:
  "targeted (a @ ''from '' @ CHR 0x22 # v) = targeted (a @ ''from '' @ CHR 0x22 # w)"
proof -
  have cut: "startsWith (dropWhile is_space (a @ ''from '' @ CHR 0x22 # u)) p
      = startsWith (dropWhile is_space (a @ ''from '')) p"
    if "p \<in> set decl_prefixes" for p u
  proof -
    have "dropWhile is_space ((a @ ''from '') @ CHR 0x22 # u)
        = dropWhile is_space (a @ ''from '') @ CHR 0x22 # u"
      by (rule dropWhile_append1 [of "CHR ''f''"]) (simp_all add: not_space_f)
    moreover have "CHR 0x22 \<notin> set p"
      using decl_prefixes_shape [OF that] by simp
    ultimately show ?thesis
      by (simp add: startsWith_cut)
  qed
  show ?thesis
    unfolding targeted_dropWhile using cut by simp
qed

lemma targeted_replace_from:
  \<open>targeted (replace_first s ''from "./iris_wasm"'' ''from "./iris_wasm.js"'') = targeted s\<close>
proof -
  from replace_first_cases [of s \<open>''from "./iris_wasm"''\<close> \<open>''from "./iris_wasm.js"''\<close>]
  show ?thesis
  proof
    assume \<open>replace_first s ''from "./iris_wasm"'' ''from "./iris_wasm.js"'' = s
       \<and> \<not> str_includes s ''from "./iris_wasm"''\<close>
    then show ?thesis by simp
  next
    assume \<open>\<exists>a b. s = a @ ''from "./iris_wasm"'' @ b
       \<and> replace_first s ''from "./iris_wasm"'' ''from "./iris_wasm.js"''
           = a @ ''from "./iris_wasm.js"'' @ b\<close>
    then obtain a b where s: \<open>s = a @ ''from "./iris_wasm"'' @ b\<close>
      and r: \<open>replace_first s ''from "./iris_wasm"'' ''from "./iris_wasm.js"''
           = a @ ''from "./iris_wasm.js"'' @ b\<close>
      by blast
    have \<open>targeted (a @ ''from '' @ CHR 0x22 # (''./iris_wasm.js"'' @ b))
        = targeted (a @ ''from '' @ CHR 0x22 # (''./iris_wasm"'' @ b))\<close>
      by (rule targeted_from_rewrite)
    with s r show ?thesis by simp
  qed
qed

lemma import_start_shape:
  assumes "startsWith (trim line) ''import {''"
  shows "\<exists>ws c. line = ws @ ''import {'' @ c \<and> (\<forall>x \<in> set ws. is_space x)"
proof -
  from assms have "startsWith (dropWhile is_space line) ''import {''"
    by (subst (asm) startsWith_trim) (simp_all add: not_space_brace)
  then obtain c where "dropWhile is_space line = ''import {'' @ c"
    by (auto simp: startsWith_iff)
  then have "line = takeWhile is_space line @ ''import {'' @ c"
    using takeWhile_dropWhile_id [of is_space line] by simp
  moreover have "\<forall>x \<in> set (takeWhile is_space line). is_space x"
    by (auto dest: set_takeWhileD)
  ultimately show ?thesis by blast
qed

lemma import_start_spaces:
  assumes "\<forall>x \<in> set ws. is_space x"
  shows "startsWith (trim (ws @ ''import {'' @ c)) ''import {''"
proof -
  have "startsWith (dropWhile is_space (ws @ ''import {'' @ c)) ''import {''"
    using assms by (simp add: dropWhile_spaces not_space_i)
  then show ?thesis
    by (subst startsWith_trim) (simp_all add: not_space_brace)
qed

lemma replace_import:
  assumes "\<forall>x \<in> set ws. is_space x"
  shows "replace_first (ws @ ''import {'' @ c) ''import {'' ''import type {''
           = ws @ ''import type {'' @ c"
proof -
  have "CHR ''i'' \<notin> set ws"
    using assms not_space_i by blast
  then have "replace_first (ws @ ''import {'' @ c) ''import {'' ''import type {''
      = ws @ replace_first (''import {'' @ c) ''import {'' ''import type {''"
    by (intro replace_first_skip) simp_all
  then show ?thesis by simp
qed

lemma fix_imports_import_line:
  assumes "\<forall>x \<in> set ws. is_space x"
  shows \<open>fix_imports (ws @ ''import {'' @ c)
           = ws @ ''import type {'' @ replace_first c ''from "./iris_wasm"'' ''from "./iris_wasm.js"''\<close>
proof -
  have "CHR ''f'' \<notin> set ws"
    using assms not_space_f by blast
  then have \<open>replace_first ((ws @ ''import type {'') @ c) ''from "./iris_wasm"'' ''from "./iris_wasm.js"''
      = (ws @ ''import type {'') @ replace_first c ''from "./iris_wasm"'' ''from "./iris_wasm.js"''\<close>
    by (intro replace_first_skip) simp_all
  then show ?thesis
    using import_start_spaces [OF assms, of c] replace_import [OF assms, of c]
    by (simp add: fix_imports_def)
qed

lemma targeted_fix_imports: "targeted (fix_imports line) = targeted line"
proof (cases "startsWith (trim line) ''import {''")
  case True
  then obtain ws c where l: "line = ws @ ''import {'' @ c" and ws: "\<forall>x \<in> set ws. is_space x"
    using import_start_shape by blast
  have "\<not> targeted (ws @ CHR ''i'' # (''mport {'' @ c))"
    using ws by (rule not_targeted_import)
  moreover have \<open>\<not> targeted (ws @ CHR ''i'' #
      (''mport type {'' @ replace_first c ''from "./iris_wasm"'' ''from "./iris_wasm.js"''))\<close>
    using ws by (rule not_targeted_import)
  ultimately show ?thesis
    unfolding l fix_imports_import_line [OF ws] by simp
next
  case False
  then show ?thesis
    by (simp add: fix_imports_def targeted_replace_from)
qed

lemma startsWith_take: "startsWith s p = (take (length p) s = p)"
  by (induction s p rule: startsWith.induct) auto

lemma take_append_short: "n \<le> length xs \<Longrightarrow> take n (xs @ ys) = take n xs"
  by simp

lemma replace_first_leftmost:
  assumes "pat \<noteq> []" "\<not> str_includes (a @ butlast pat) pat"
  shows "replace_first (a @ pat @ b) pat rep = a @ rep @ b"
  using assms(2)
proof (induction a)
  case Nil
  from assms(1) show ?case by (simp add: replace_first_here)
next
  case (Cons x xs)
  from Cons.prems have ns: "\<not> startsWith ((x # xs) @ butlast pat) pat"
    and ni: "\<not> str_includes (xs @ butlast pat) pat"
    by simp_all
  have eq: "(x # xs) @ pat @ b = ((x # xs) @ butlast pat) @ (last pat # b)"
    using assms(1) by simp
  have "take (length pat) ((x # xs) @ pat @ b) = take (length pat) ((x # xs) @ butlast pat)"
    unfolding eq by (rule take_append_short) simp
  moreover from ns have "take (length pat) ((x # xs) @ butlast pat) \<noteq> pat"
    unfolding startsWith_take .
  ultimately have "take (length pat) ((x # xs) @ pat @ b) \<noteq> pat"
    by (simp only: not_False_eq_True)
  then have "\<not> startsWith ((x # xs) @ pat @ b) pat"
    unfolding startsWith_take .
  then show ?case
    using Cons.IH [OF ni] by simp
qed

lemma fix_imports_from:
  assumes \<open>\<not> startsWith (trim (a @ ''from "./iris_wasm"'' @ b)) ''import {''\<close>
    and \<open>\<not> str_includes (a @ ''from "./iris_wasm'') ''from "./iris_wasm"''\<close>
  shows \<open>fix_imports (a @ ''from "./iris_wasm"'' @ b) = a @ ''from "./iris_wasm.js"'' @ b\<close>
proof -
  have \<open>replace_first (a @ ''from "./iris_wasm"'' @ b) ''from "./iris_wasm"'' ''from "./iris_wasm.js"''
      = a @ ''from "./iris_wasm.js"'' @ b\<close>
    by (rule replace_first_leftmost) (use assms(2) in simp_all)
  with assms(1) show ?thesis
    by (simp add: fix_imports_def)
qed

lemma fix_imports_unchanged:
  assumes \<open>\<not> startsWith (trim line) ''import {''\<close>
    and \<open>\<not> str_includes line ''from "./iris_wasm"''\<close>
  shows "fix_imports line = line"
  using assms by (simp add: fix_imports_def replace_first_absent)

subsection \<open>The script as a whole\<close>

lemma scan_closes_map_fix: "scan_closes n (map fix_imports body) = scan_closes n body"
  by (induction body arbitrary: n)
    (simp_all add: targeted_fix_imports brace_delta_fix_imports)

lemma scan_removes_map_fix:
  "scan_removes ls ks \<Longrightarrow> scan_removes (map fix_imports ls) (map fix_imports ks)"
proof (induction rule: scan_removes.induct)
  case scan_none
  show ?case by (simp add: scan_removes.scan_none)
next
  case (scan_plain l ls ks)
  then show ?case
    by (simp add: scan_removes.scan_plain targeted_fix_imports)
next
  case (scan_block d body rest ks)
  have "scan_removes (fix_imports d # map fix_imports body @ map fix_imports rest)
          (map fix_imports ks)"
    using scan_block
    by (intro scan_removes.scan_block)
      (simp_all add: targeted_fix_imports brace_delta_fix_imports scan_closes_map_fix)
  then show ?case by simp
qed

lemma scan_removes_plain: "scan_removes ls ks \<Longrightarrow> k \<in> set ks \<Longrightarrow> \<not> targeted k"
  by (induction rule: scan_removes.induct) auto

lemma foldl_process_line: "foldl process_line st ls = foldl step st (map fix_imports ls)"
  by (induction ls arbitrary: st) (simp_all add: process_line_def)

lemma filter_lines_scan:
  assumes "scan_removes ls ks"
  shows "filter_lines ls = map fix_imports ks"
proof -
  have "scan_removes (map fix_imports ls) (map fix_imports ks)"
    using assms by (rule scan_removes_map_fix)
  then have "newLines (foldl step initial_state (map fix_imports ls))
      = newLines initial_state @ map fix_imports ks"
    using foldl_step_scan [of "map fix_imports ls" "map fix_imports ks" initial_state]
    by (simp add: initial_state_def)
  then show ?thesis
    by (simp add: filter_lines_def foldl_process_line initial_state_def)
qed

lemma join_lines_snoc:
  "join_lines (xs @ [g]) = (if xs = [] then g else join_lines xs @ newline # g)"
  by (induction xs rule: join_lines.induct) simp_all

lemma filter_guards_ends: "\<exists>pre. filter_guards content = pre @ genericGuards"
proof (cases "filter_lines (split_lines content) = []")
  case True
  then have "filter_guards content = [] @ genericGuards"
    by (simp add: filter_guards_def)
  then show ?thesis ..
next
  case False
  then have "filter_guards content
      = (join_lines (filter_lines (split_lines content)) @ [newline]) @ genericGuards"
    by (simp add: filter_guards_def join_lines_snoc)
  then show ?thesis ..
qed

subsection \<open>Functions read off the text, and what the loop takes for one\<close>

lemma count_braces_no_brace:
  "CHR ''{'' \<notin> set l \<Longrightarrow> CHR ''}'' \<notin> set l \<Longrightarrow> count_braces n l = n"
  by (induction l arbitrary: n) auto

lemma brace_delta_no_brace: "\<not> has_brace l \<Longrightarrow> brace_delta l = 0"
  by (simp add: has_brace_def brace_delta_def count_braces_no_brace)

lemma function_ends_scan:
  "function_ends True n body \<Longrightarrow> \<forall>l \<in> set body. \<not> targeted l \<Longrightarrow> scan_closes n body"
proof (induction body arbitrary: n)
  case Nil
  then show ?case by simp
next
  case (Cons l ls)
  show ?case
  proof (cases "n + brace_delta l = 0")
    case True
    with Cons.prems show ?thesis by simp
  next
    case False
    with Cons.prems have "function_ends True (n + brace_delta l) ls" by simp
    moreover from Cons.prems have "\<forall>l \<in> set ls. \<not> targeted l" by simp
    ultimately have "scan_closes (n + brace_delta l) ls" by (rule Cons.IH)
    with False Cons.prems(2) show ?thesis by simp
  qed
qed

lemma function_scan_closes:
  assumes body: "body \<noteq> []"
    and ends: "function_ends False 0 (d # body)"
    and early: "has_brace d \<or> has_brace (hd body)"
    and plain: "\<forall>l \<in> set body. \<not> targeted l"
  shows "scan_closes (brace_delta d) body"
proof (cases "has_brace d")
  case True
  with ends body have "function_ends True (brace_delta d) body"
    by (simp split: if_splits)
  then show ?thesis using plain by (rule function_ends_scan)
next
  case False
  then have d0: "brace_delta d = 0" by (rule brace_delta_no_brace)
  from body obtain b rest where b: "body = b # rest" by (cases body) auto
  with early False have hb: "has_brace b" by simp
  from ends False d0 have "function_ends False 0 body" by simp
  with b hb have step: "if brace_delta b = 0 then rest = []
      else function_ends True (brace_delta b) rest"
    by (auto split: if_splits)
  from plain b have nb: "\<not> targeted b" and pr: "\<forall>l \<in> set rest. \<not> targeted l"
    by simp_all
  show ?thesis
  proof (cases "brace_delta b = 0")
    case True
    with step nb b d0 show ?thesis by simp
  next
    case False
    with step have "function_ends True (brace_delta b) rest" by simp
    then have "scan_closes (brace_delta b) rest" using pr by (rule function_ends_scan)
    with False nb b d0 show ?thesis by simp
  qed
qed

lemma removable_scan: "removable_functions ls ks \<Longrightarrow> scan_removes ls ks"
proof (induction rule: removable_functions.induct)
  case rf_none
  show ?case by (rule scan_none)
next
  case (rf_plain l ls ks)
  then show ?case by (simp add: scan_plain)
next
  case (rf_function d body rest ks)
  from rf_function.hyps(2,3,4,5) have "scan_closes (brace_delta d) body"
    by (rule function_scan_closes)
  with rf_function.hyps(1) show ?case
    using rf_function.IH by (rule scan_block)
qed

lemma removable_declared: "removable_functions ls ks \<Longrightarrow> declared_functions ls ks"
  by (induction rule: removable_functions.induct) (auto intro: declared_functions.intros)

lemma filter_lines_removable:
  "removable_functions ls ks \<Longrightarrow> filter_lines ls = map fix_imports ks"
  by (rule filter_lines_scan) (rule removable_scan)

subsection \<open>A line on which the import path occurs once\<close>

lemma str_includes_skip:
  assumes "pat \<noteq> []" "hd pat \<notin> set x"
  shows "str_includes (x @ y) pat = str_includes y pat"
  using assms(2)
proof (induction x)
  case Nil
  show ?case by simp
next
  case (Cons c cs)
  then have "\<not> startsWith (c # cs @ y) pat"
    using assms(1) by (intro startsWith_hd) auto
  with Cons show ?case by simp
qed

lemma str_includes_head: "str_includes s pat \<Longrightarrow> str_includes (c # s) pat"
  by simp

lemma startsWith_includes: "startsWith s pat \<Longrightarrow> str_includes s pat"
  by (cases s) simp_all

lemma not_includes_after_replace:
  assumes pat: "pat \<noteq> []"
    and rep: "rep = butlast pat @ r" "r \<noteq> []"
    and here: "\<not> startsWith (rep @ b) pat"
    and once: "hd pat \<notin> set (tl rep)"
    and before: "\<not> str_includes (a @ butlast pat) pat"
    and after: "\<not> str_includes b pat"
  shows "\<not> str_includes (a @ rep @ b) pat"
  using before
proof (induction a)
  case Nil
  from rep have "rep \<noteq> []" by simp
  then obtain r0 rt where r: "rep = r0 # rt" by (cases rep) simp_all
  with once have "hd pat \<notin> set rt" by simp
  with pat have "str_includes (rt @ b) pat = str_includes b pat"
    by (rule str_includes_skip)
  with after here r show ?case by simp
next
  case (Cons x xs)
  from Cons.prems have ns: "\<not> startsWith ((x # xs) @ butlast pat) pat"
    and ni: "\<not> str_includes (xs @ butlast pat) pat"
    by simp_all
  have eq: "(x # xs) @ rep @ b = ((x # xs) @ butlast pat) @ (r @ b)"
    using rep(1) by simp
  have "take (length pat) ((x # xs) @ rep @ b) = take (length pat) ((x # xs) @ butlast pat)"
    unfolding eq by (rule take_append_short) simp
  moreover from ns have "take (length pat) ((x # xs) @ butlast pat) \<noteq> pat"
    unfolding startsWith_take .
  ultimately have "take (length pat) ((x # xs) @ rep @ b) \<noteq> pat"
    by (simp only: not_False_eq_True)
  then have "\<not> startsWith ((x # xs) @ rep @ b) pat"
    unfolding startsWith_take .
  with Cons.IH [OF ni] show ?case by simp
qed

lemma fix_from_once:
  assumes \<open>\<not> str_includes (a @ ''from "./iris_wasm'') ''from "./iris_wasm"''\<close>
    and \<open>\<not> str_includes b ''from "./iris_wasm"''\<close>
  shows \<open>fix_from (a @ ''from "./iris_wasm"'' @ b) = a @ ''from "./iris_wasm.js"'' @ b
       \<and> \<not> str_includes (a @ ''from "./iris_wasm.js"'' @ b) ''from "./iris_wasm"''\<close>
proof
  show \<open>fix_from (a @ ''from "./iris_wasm"'' @ b) = a @ ''from "./iris_wasm.js"'' @ b\<close>
    unfolding fix_from_def by (rule replace_first_leftmost) (use assms(1) in simp_all)
  show \<open>\<not> str_includes (a @ ''from "./iris_wasm.js"'' @ b) ''from "./iris_wasm"''\<close>
  proof (rule not_includes_after_replace [where r = \<open>''.js"''\<close>])
    show \<open>''from "./iris_wasm"'' \<noteq> []\<close> by simp
    show \<open>''from "./iris_wasm.js"'' = butlast ''from "./iris_wasm"'' @ ''.js"''\<close> by simp
    show \<open>''.js"'' \<noteq> []\<close> by simp
    show \<open>\<not> startsWith (''from "./iris_wasm.js"'' @ b) ''from "./iris_wasm"''\<close> by simp
    show \<open>hd ''from "./iris_wasm"'' \<notin> set (tl ''from "./iris_wasm.js"'')\<close> by simp
    show \<open>\<not> str_includes (a @ butlast ''from "./iris_wasm"'') ''from "./iris_wasm"''\<close>
      using assms(1) by simp
    show \<open>\<not> str_includes b ''from "./iris_wasm"''\<close> by (rule assms(2))
  qed
qed

lemma fix_from_absent:
  \<open>\<not> str_includes line ''from "./iris_wasm"'' \<Longrightarrow> fix_from line = line\<close>
  by (simp add: fix_from_def replace_first_absent)

lemma fix_imports_plain:
  "\<not> startsWith (trim line) ''import {'' \<Longrightarrow> fix_imports line = fix_from line"
  by (simp add: fix_imports_def fix_from_def)

lemma fix_imports_import:
  assumes "\<forall>x \<in> set ws. is_space x"
  shows "fix_imports (ws @ ''import {'' @ c) = ws @ ''import type {'' @ fix_from c"
  using fix_imports_import_line [OF assms] by (simp add: fix_from_def)

text \<open>
  C8, as the script has it. Let the input be made of plain lines (lines that are no
  targeted declaration) and of targeted functions, where each targeted function is
  a declaration line
  \<^verbatim>\<open>export function <name>(\<close> (the name in \<open>guardsToRemove\<close>, or \<^verbatim>\<open>is\<close> and a name of
  \<open>excludes\<close>) followed by one or more lines that end its brace-balanced body (the
  last of them is the first line of the function on which a brace has been met and
  the brace count is zero), its first brace stands on the declaration line or on the
  line right after it, and no line after its declaration line is itself a targeted
  declaration (\<open>removable_functions\<close>). Then the output is exactly the plain lines, each with its
  imports fixed, joined by line feeds and followed by \<open>genericGuards\<close>: no line of a
  targeted function of the input is in it, and no line kept declares one. For every
  input the output ends with \<open>genericGuards\<close>, verbatim. Fixing the imports of a line
  whose trimmed text starts with \<^verbatim>\<open>import {\<close> turns that \<^verbatim>\<open>import {\<close> into
  \<^verbatim>\<open>import type {\<close> and fixes the path in the rest of the line; on any other line it
  fixes the path. Fixing the path of a text in which \<^verbatim>\<open>from "./iris_wasm"\<close> occurs once
  turns that occurrence into \<^verbatim>\<open>from "./iris_wasm.js"\<close>, after which none is left; a
  text without an occurrence is left as it is.
\<close>

theorem filter_guards_output:
  \<open>(removable_functions (split_lines content) ks \<longrightarrow>
       filter_guards content = join_lines (map fix_imports ks @ [genericGuards])
       \<and> (\<forall>k \<in> set ks. \<not> targeted k \<and> \<not> targeted (fix_imports k)))
   \<and> (\<exists>pre. filter_guards content = pre @ genericGuards)
   \<and> ((\<forall>x \<in> set ws. is_space x) \<longrightarrow>
        fix_imports (ws @ ''import {'' @ c) = ws @ ''import type {'' @ fix_from c)
   \<and> (\<not> startsWith (trim line) ''import {'' \<longrightarrow> fix_imports line = fix_from line)
   \<and> (\<not> str_includes (a @ ''from "./iris_wasm'') ''from "./iris_wasm"''
        \<and> \<not> str_includes b ''from "./iris_wasm"''
        \<longrightarrow> fix_from (a @ ''from "./iris_wasm"'' @ b) = a @ ''from "./iris_wasm.js"'' @ b
            \<and> \<not> str_includes (a @ ''from "./iris_wasm.js"'' @ b) ''from "./iris_wasm"'')
   \<and> (\<not> str_includes line ''from "./iris_wasm"'' \<longrightarrow> fix_from line = line)\<close>
proof (intro conjI impI ballI)
  assume rf: "removable_functions (split_lines content) ks"
  then show "filter_guards content = join_lines (map fix_imports ks @ [genericGuards])"
    by (simp add: filter_guards_def filter_lines_removable)
  fix k assume "k \<in> set ks"
  with rf show "\<not> targeted k"
    by (intro scan_removes_plain [of "split_lines content" ks]) (rule removable_scan)
  then show "\<not> targeted (fix_imports k)" by (simp add: targeted_fix_imports)
next
  show "\<exists>pre. filter_guards content = pre @ genericGuards"
    by (rule filter_guards_ends)
next
  assume "\<forall>x \<in> set ws. is_space x"
  then show "fix_imports (ws @ ''import {'' @ c) = ws @ ''import type {'' @ fix_from c"
    by (rule fix_imports_import)
next
  assume "\<not> startsWith (trim line) ''import {''"
  then show "fix_imports line = fix_from line"
    by (rule fix_imports_plain)
next
  assume once: \<open>\<not> str_includes (a @ ''from "./iris_wasm'') ''from "./iris_wasm"''
        \<and> \<not> str_includes b ''from "./iris_wasm"''\<close>
  then have both: \<open>fix_from (a @ ''from "./iris_wasm"'' @ b) = a @ ''from "./iris_wasm.js"'' @ b
       \<and> \<not> str_includes (a @ ''from "./iris_wasm.js"'' @ b) ''from "./iris_wasm"''\<close>
    by (intro fix_from_once) simp_all
  from both show \<open>fix_from (a @ ''from "./iris_wasm"'' @ b) = a @ ''from "./iris_wasm.js"'' @ b\<close>
    by (rule conjunct1)
  from both show \<open>\<not> str_includes (a @ ''from "./iris_wasm.js"'' @ b) ''from "./iris_wasm"''\<close>
    by (rule conjunct2)
next
  assume \<open>\<not> str_includes line ''from "./iris_wasm"''\<close>
  then show "fix_from line = line"
    by (rule fix_from_absent)
qed

text \<open>The sample guard file, line by line.\<close>

lemmas line_defs = targeted_def guard_start_def exclude_start_def guardsToRemove_def
  excludes_def trim_def is_space_def brace_delta_def has_brace_def

lemma sample_split:
  \<open>split_lines sample_guards =
     [''import { ZSet } from "./iris_wasm";'',
      ''export function isZSet(obj: unknown): obj is ZSet {'',
      ''    return isZBase(obj)'',
      ''}'',
      ''export function isNote(obj: unknown): obj is Note {'',
      ''    return true'',
      ''}'',
      ''export function isExtendedKey(obj: unknown): obj is ExtendedKey {'',
      ''    return false'',
      ''}'',
      '''']\<close>
  by (simp add: sample_guards_def newline_def)

lemma sample_removable: "removable_functions (split_lines sample_guards) sample_kept"
proof -
  let ?imp = \<open>''import { ZSet } from "./iris_wasm";''\<close>
  let ?zset = "''export function isZSet(obj: unknown): obj is ZSet {''"
  let ?zbody = "[''    return isZBase(obj)'', ''}'']"
  let ?note = "[''export function isNote(obj: unknown): obj is Note {'',
      ''    return true'', ''}'']"
  let ?key = "''export function isExtendedKey(obj: unknown): obj is ExtendedKey {''"
  let ?kbody = "[''    return false'', ''}'']"
  have last: "removable_functions [''''] ['''']"
    by (intro rf_plain rf_none) (simp add: line_defs)
  have "removable_functions (?key # ?kbody @ ['''']) ['''']"
    by (rule rf_function [OF _ _ _ _ _ last]) (simp_all add: line_defs)
  then have "removable_functions (?note @ ?key # ?kbody @ ['''']) (?note @ [''''])"
    by (auto intro!: rf_plain simp: line_defs)
  then have "removable_functions (?zset # ?zbody @ ?note @ ?key # ?kbody @ [''''])
      (?note @ [''''])"
    by (rule rf_function [rotated 5]) (simp_all add: line_defs)
  then have "removable_functions (?imp # ?zset # ?zbody @ ?note @ ?key # ?kbody @ [''''])
      (?imp # ?note @ [''''])"
    by (rule rf_plain [rotated]) (simp add: line_defs)
  then show ?thesis
    by (simp add: sample_split sample_kept_def)
qed

text \<open>
  The sample guard file satisfies the hypothesis, and the script keeps its import
  (fixed), the guard of \<^verbatim>\<open>Note\<close> and the last, empty line.
\<close>

theorem filter_guards_output_witness:
  \<open>removable_functions (split_lines sample_guards) sample_kept
   \<and> filter_guards sample_guards = join_lines
       [''import type { ZSet } from "./iris_wasm.js";'',
        ''export function isNote(obj: unknown): obj is Note {'',
        ''    return true'',
        ''}'',
        '''',
        genericGuards]
   \<and> fix_imports ''  import { ZSet } from "./iris_wasm";''
       = ''  import type {'' @ fix_from '' ZSet } from "./iris_wasm";''
   \<and> fix_imports ''export * from "./iris_wasm";'' = fix_from ''export * from "./iris_wasm";''
   \<and> fix_from ''export * from "./iris_wasm";'' = ''export * from "./iris_wasm.js";''
   \<and> \<not> str_includes ''export * from "./iris_wasm.js";'' ''from "./iris_wasm"''
   \<and> fix_from ''}'' = ''}''\<close>
proof -
  note inst = filter_guards_output [of sample_guards sample_kept "''  ''"
      \<open>'' ZSet } from "./iris_wasm";''\<close> \<open>''export * from "./iris_wasm";''\<close> "''export * ''" "'';''"]
  note inst2 = filter_guards_output [of sample_guards sample_kept "''  ''"
      \<open>'' ZSet } from "./iris_wasm";''\<close> \<open>''}''\<close> "''export * ''" "'';''"]
  have rf: "removable_functions (split_lines sample_guards) sample_kept"
    by (rule sample_removable)
  from inst [THEN conjunct1, THEN mp, OF rf]
  have "filter_guards sample_guards = join_lines (map fix_imports sample_kept @ [genericGuards])"
    by (rule conjunct1)
  then have out: \<open>filter_guards sample_guards = join_lines
       [''import type { ZSet } from "./iris_wasm.js";'',
        ''export function isNote(obj: unknown): obj is Note {'',
        ''    return true'',
        ''}'',
        '''',
        genericGuards]\<close>
    by (simp add: sample_kept_def fix_imports_def trim_def is_space_def)
  have sp: "\<forall>x \<in> set ''  ''. is_space x"
    by (simp add: is_space_def)
  from inst [THEN conjunct2, THEN conjunct2, THEN conjunct1, THEN mp, OF sp]
  have imp: \<open>fix_imports ''  import { ZSet } from "./iris_wasm";''
       = ''  import type {'' @ fix_from '' ZSet } from "./iris_wasm";''\<close>
    by simp
  have ni: \<open>\<not> startsWith (trim ''export * from "./iris_wasm";'') ''import {''\<close>
    by (simp add: trim_def is_space_def)
  from inst [THEN conjunct2, THEN conjunct2, THEN conjunct2, THEN conjunct1, THEN mp, OF ni]
  have pl: \<open>fix_imports ''export * from "./iris_wasm";'' = fix_from ''export * from "./iris_wasm";''\<close> .
  have pre: \<open>\<not> str_includes (''export * '' @ ''from "./iris_wasm'') ''from "./iris_wasm"''
        \<and> \<not> str_includes '';'' ''from "./iris_wasm"''\<close>
    by simp
  from inst [THEN conjunct2, THEN conjunct2, THEN conjunct2, THEN conjunct2, THEN conjunct1,
      THEN mp, OF pre]
  have frm: \<open>fix_from ''export * from "./iris_wasm";'' = ''export * from "./iris_wasm.js";''
      \<and> \<not> str_includes ''export * from "./iris_wasm.js";'' ''from "./iris_wasm"''\<close>
    by simp
  have pre2: \<open>\<not> str_includes ''}'' ''from "./iris_wasm"''\<close>
    by simp
  from inst2 [THEN conjunct2, THEN conjunct2, THEN conjunct2, THEN conjunct2, THEN conjunct2,
      THEN mp, OF pre2]
  have same: "fix_from ''}'' = ''}''" .
  from frm have f1: \<open>fix_from ''export * from "./iris_wasm";'' = ''export * from "./iris_wasm.js";''\<close>
    by (rule conjunct1)
  from frm have f2: \<open>\<not> str_includes ''export * from "./iris_wasm.js";'' ''from "./iris_wasm"''\<close>
    by (rule conjunct2)
  from rf out imp pl f1 f2 same show ?thesis by (intro conjI)
qed

text \<open>
  C8 as stated fails in three ways, each on an input whose targeted functions all
  have a brace-balanced body that spans more than the declaration line
  (\<open>declared_functions\<close>).
  \<^item> A signature that runs over three lines: the count is zero on the second line,
    before any brace, the loop takes the function to end there, and the last three
    lines of \<^verbatim>\<open>isZMap\<close> are in the output.
  \<^item> A targeted declaration line inside a targeted function: the loop starts its
    count afresh there, and the last line of \<^verbatim>\<open>isZSet\<close> is in the output.
  \<^item> A line that imports twice from \<^verbatim>\<open>"./iris_wasm"\<close>: \<^verbatim>\<open>String.replace\<close> with a string
    pattern rewrites one occurrence, and the second is still in the output.
\<close>

theorem filter_guards_three_counterexample:
  \<open>declared_functions (split_lines long_signature) []
   \<and> filter_guards long_signature
       = join_lines [''): obj is ZMap {'', ''    return true'', ''}'', genericGuards]
   \<and> declared_functions (split_lines nested_declaration) []
   \<and> filter_guards nested_declaration = join_lines [''}'', genericGuards]
   \<and> declared_functions (split_lines two_imports) [two_imports]
   \<and> filter_guards two_imports = join_lines
       [''import type { A } from "./iris_wasm.js"; import { B } from "./iris_wasm";'',
        genericGuards]
   \<and> str_includes ''import type { A } from "./iris_wasm.js"; import { B } from "./iris_wasm";''
        ''from "./iris_wasm"''\<close>
proof (intro conjI)
  have "declared_functions
      (''export function isZMap('' #
        [''    obj: unknown'', ''): obj is ZMap {'', ''    return true'', ''}''] @ []) []"
    by (rule df_function [OF _ _ _ df_none]) (simp_all add: line_defs)
  then show "declared_functions (split_lines long_signature) []"
    by (simp add: long_signature_def newline_def)
  have "declared_functions
      (''export function isZSet(obj: unknown): obj is ZSet {'' #
        [''export function isZMap(obj: unknown): obj is ZMap {'', ''}'', ''}''] @ []) []"
    by (rule df_function [OF _ _ _ df_none]) (simp_all add: line_defs)
  then show "declared_functions (split_lines nested_declaration) []"
    by (simp add: nested_declaration_def newline_def)
  have "split_lines two_imports = [two_imports]"
    by (simp add: two_imports_def newline_def)
  moreover have "\<not> targeted two_imports"
    by (simp add: two_imports_def line_defs)
  ultimately show "declared_functions (split_lines two_imports) [two_imports]"
    by (simp add: df_plain df_none)
  show "filter_guards long_signature
       = join_lines [''): obj is ZMap {'', ''    return true'', ''}'', genericGuards]"
    by (simp add: long_signature_def filter_guards_def filter_lines_def process_line_def
      step_def fix_imports_def guard_start_def exclude_start_def guardsToRemove_def excludes_def
      trim_def is_space_def initial_state_def newline_def)
  show "filter_guards nested_declaration = join_lines [''}'', genericGuards]"
    by (simp add: nested_declaration_def filter_guards_def filter_lines_def process_line_def
      step_def fix_imports_def guard_start_def exclude_start_def guardsToRemove_def excludes_def
      trim_def is_space_def initial_state_def newline_def)
  show \<open>filter_guards two_imports = join_lines
       [''import type { A } from "./iris_wasm.js"; import { B } from "./iris_wasm";'',
        genericGuards]\<close>
    by (simp add: two_imports_def filter_guards_def filter_lines_def process_line_def step_def
      fix_imports_def guard_start_def exclude_start_def guardsToRemove_def excludes_def
      trim_def is_space_def initial_state_def newline_def)
  show \<open>str_includes ''import type { A } from "./iris_wasm.js"; import { B } from "./iris_wasm";''
        ''from "./iris_wasm"''\<close>
    by simp
qed

text \<open>
  Why the claim asks for a body beyond the declaration line: when the braces of a
  targeted declaration balance on its own line, the count is already zero, and the
  loop takes the next line for the end of the function and drops it too.
\<close>

lemma one_line_guard_takes_next_line:
  "filter_lines
     [''export function isZSet(obj: unknown): obj is ZSet { return true }'',
      ''const keep = 1;'',
      ''const also = 2;'']
   = [''const also = 2;'']"
  by (simp add: filter_lines_def process_line_def step_def fix_imports_def guard_start_def
      exclude_start_def guardsToRemove_def excludes_def trim_def is_space_def
      initial_state_def)

section \<open>Properties of update-package-json.js\<close>




lemma falsy_not_JArr: "falsy v \<Longrightarrow> v \<noteq> JArr ys"
  by (cases v) simp_all





lemma count_list_pos: "x \<in> set ys \<Longrightarrow> 1 \<le> count_list ys x"
  by (induction ys) auto

lemma count_list_notin: "x \<notin> set ys \<Longrightarrow> count_list ys x = 0"
  by (simp add: count_list_0_iff)





lemma sample_first_run:
  "update_package_json sample_parse sample_stringify (Some manifest_text)
     = added sample_stringify manifest_pkg_added"
  by (simp add: update_package_json_def sample_parse_def manifest_pkg_def
      manifest_pkg_added_def fileToAdd_def)



section \<open>Properties of the transaction builder, as specified\<close>

text \<open>
  C1, on the builder as the specification describes it. When \<open>simpleSpend\<close> succeeds,
  the input values add up to gift, fee and change amount exactly, and to the outputs
  plus the fee; the gift and the fee are the ones asked for; the change amount is 0
  when no change was asked for; and the builder is \<^verbatim>\<open>Composed\<close>. When no change is
  asked for and the inputs exceed gift plus fee, the call fails with
  \<^verbatim>\<open>UnspentResidual\<close> and the builder is as it was.
\<close>

theorem simpleSpend_conservation:
  "(simpleSpend settings b ins conds recipientDigest g feeOverride refundDigest includeChange
      = (None, b') \<longrightarrow>
      inputs_total ins = tx_gift b' + tx_fee b' + changeAmount b'
      \<and> inputs_total ins = outputs_total b' + tx_fee b'
      \<and> tx_gift b' = g
      \<and> tx_fee b' = spend_fee settings ins conds feeOverride
      \<and> (\<not> includeChange \<longrightarrow> changeAmount b' = 0)
      \<and> lifecycle b' = Composed)
   \<and> (lifecycle b = Draft \<and> ins \<noteq> [] \<and> \<not> includeChange
       \<and> g + spend_fee settings ins conds feeOverride < inputs_total ins \<longrightarrow>
      simpleSpend settings b ins conds recipientDigest g feeOverride refundDigest includeChange
        = (Some UnspentResidual, b))"
proof (intro conjI impI)
  let ?f = "spend_fee settings ins conds feeOverride"
  let ?run = "simpleSpend settings b ins conds recipientDigest g feeOverride refundDigest
                includeChange"
  {
    assume ok: "?run = (None, b')"
    then have enough: "g + ?f \<le> inputs_total ins"
      by (auto simp: simpleSpend_def Let_def split: if_splits)
    show "inputs_total ins = tx_gift b' + tx_fee b' + changeAmount b'"
      using ok by (auto simp: simpleSpend_def Let_def changeAmount_def split: if_splits)
    show "inputs_total ins = outputs_total b' + tx_fee b'"
      using ok by (auto simp: simpleSpend_def Let_def outputs_total_def split: if_splits)
    show "tx_gift b' = g"
      using ok by (auto simp: simpleSpend_def Let_def split: if_splits)
    show "tx_fee b' = ?f"
      using ok by (auto simp: simpleSpend_def Let_def split: if_splits)
    show "lifecycle b' = Composed"
      using ok by (auto simp: simpleSpend_def Let_def split: if_splits)
    show "changeAmount b' = 0" if "\<not> includeChange"
      using ok that by (auto simp: simpleSpend_def Let_def changeAmount_def split: if_splits)
  }
  show "?run = (Some UnspentResidual, b)"
    if "lifecycle b = Draft \<and> ins \<noteq> [] \<and> \<not> includeChange \<and> g + ?f < inputs_total ins"
    using that by (simp add: simpleSpend_def Let_def)
qed

text \<open>
  The scenario of the specification: one note of 1000000, a gift of 600000 and a fee
  override of 50000 give a recipient output of 600000 and a change output of 350000;
  without change the same call fails with \<^verbatim>\<open>UnspentResidual\<close>.
\<close>

theorem simpleSpend_conservation_witness:
  "simpleSpend \<lparr>feeFor = (\<lambda>shape. 0)\<rparr> new_builder
      [\<lparr>note_name = ''n1'', note_value = 1000000\<rparr>] [] ''recipient'' 600000 (Some 50000)
      ''refund'' True
     = (None,
        \<lparr>lifecycle = Composed,
         tx_inputs = [\<lparr>note_name = ''n1'', note_value = 1000000\<rparr>],
         tx_conditions = [],
         tx_outputs =
           [\<lparr>out_role = Recipient, out_to = ''recipient'', out_amount = 600000\<rparr>,
            \<lparr>out_role = Change, out_to = ''refund'', out_amount = 350000\<rparr>],
         tx_gift = 600000, tx_fee = 50000\<rparr>)
   \<and> inputs_total [\<lparr>note_name = ''n1'', note_value = 1000000\<rparr>] = 600000 + 50000 + 350000
   \<and> simpleSpend \<lparr>feeFor = (\<lambda>shape. 0)\<rparr> new_builder
        [\<lparr>note_name = ''n1'', note_value = 1000000\<rparr>] [] ''recipient'' 600000 (Some 50000)
        ''refund'' False
       = (Some UnspentResidual, new_builder)"
proof -
  let ?s = "\<lparr>feeFor = (\<lambda>shape. 0)\<rparr>"
  let ?ins = "[\<lparr>note_name = ''n1'', note_value = 1000000\<rparr>]"
  let ?b' = "\<lparr>lifecycle = Composed, tx_inputs = ?ins, tx_conditions = [],
         tx_outputs =
           [\<lparr>out_role = Recipient, out_to = ''recipient'', out_amount = 600000\<rparr>,
            \<lparr>out_role = Change, out_to = ''refund'', out_amount = 350000\<rparr>],
         tx_gift = 600000, tx_fee = 50000\<rparr>"
  have run: "simpleSpend ?s new_builder ?ins [] ''recipient'' 600000 (Some 50000) ''refund'' True
      = (None, ?b')"
    by (simp add: simpleSpend_def new_builder_def spend_fee_def inputs_total_def Let_def)
  have "inputs_total ?ins = tx_gift ?b' + tx_fee ?b' + changeAmount ?b'"
    using simpleSpend_conservation [of ?s new_builder ?ins "[]" "''recipient''" 600000
        "Some 50000" "''refund''" True ?b', THEN conjunct1, THEN mp, OF run]
    by (rule conjunct1)
  then have total: "inputs_total ?ins = 600000 + 50000 + 350000"
    by (simp add: changeAmount_def)
  have pre: "lifecycle new_builder = Draft \<and> ?ins \<noteq> [] \<and> \<not> False
      \<and> 600000 + spend_fee ?s ?ins [] (Some 50000) < inputs_total ?ins"
    by (simp add: new_builder_def spend_fee_def inputs_total_def)
  have residual: "simpleSpend ?s new_builder ?ins [] ''recipient'' 600000 (Some 50000)
      ''refund'' False = (Some UnspentResidual, new_builder)"
    using simpleSpend_conservation [of ?s new_builder ?ins "[]" "''recipient''" 600000
        "Some 50000" "''refund''" False ?b', THEN conjunct2, THEN mp, OF pre] .
  from run total residual show ?thesis by (intro conjI)
qed

end
